theory Spec2Isabelle
  imports Main "HOL-Library.Word"
begin

unbundle bit_operations_syntax

section \<open>Quatplot: the serial-to-WebSocket pipeline of main.go\<close>

text \<open>
  The Go program reads lines \<open>i,j,k,real\<close> from a serial port, parses each into a
  \<open>Quaternion\<close>, stores it in the global \<open>currentQuat\<close> and broadcasts its JSON encoding
  to every WebSocket client in the global map \<open>clients\<close>. This theory embeds
  \<open>parseQuaternion\<close>, \<open>broadcastQuaternion\<close>, \<open>handleWebSocket\<close> and the loop of
  \<open>listenSerialPort\<close>, together with models of the Go library functions they call.
\<close>

subsection \<open>Values\<close>

text \<open>
  A Go \<open>float64\<close> is its IEEE 754 binary64 bit pattern: sign (bit 63), biased exponent
  (bits 62..52), fraction (bits 51..0). The zero value of the type is the all-zero pattern.
\<close>

type_synonym float64 = "64 word"

definition expBits :: "float64 \<Rightarrow> nat" where
  "expBits f = (unat f div 2 ^ 52) mod 2 ^ 11"

definition fracBits :: "float64 \<Rightarrow> nat" where
  "fracBits f = unat f mod 2 ^ 52"

definition signBit :: "float64 \<Rightarrow> bool" where
  "signBit f \<longleftrightarrow> 2 ^ 63 \<le> unat f"

text \<open>\<open>math.IsNaN\<close> and \<open>math.IsInf(f, 0)\<close>.\<close>

definition IsNaN :: "float64 \<Rightarrow> bool" where
  "IsNaN f \<longleftrightarrow> expBits f = 2047 \<and> fracBits f \<noteq> 0"

definition IsInf :: "float64 \<Rightarrow> bool" where
  "IsInf f \<longleftrightarrow> expBits f = 2047 \<and> fracBits f = 0"

text \<open>\<open>math.NaN()\<close> and \<open>math.Inf(sign)\<close>, as bit patterns.\<close>

definition NaN :: float64 where
  "NaN = 0x7FF8000000000001"

definition Inf64 :: "bool \<Rightarrow> float64" where
  "Inf64 negative = (if negative then 0xFFF0000000000000 else 0x7FF0000000000000)"

text \<open>The struct \<open>Quaternion\<close> (main.go, lines 19-24).\<close>

record Quaternion =
  I :: float64
  J :: float64
  K :: float64
  Real :: float64

text \<open>\<open>Quaternion{}\<close>: every field has the zero value of its type.\<close>

definition zeroQuaternion :: Quaternion where
  "zeroQuaternion = \<lparr>I = 0, J = 0, K = 0, Real = 0\<rparr>"

text \<open>
  The message of a Go \<open>error\<close>. Text produced by \<open>strconv.Quote\<close> is kept symbolic:
  \<open>Quoted s\<close> stands for the Go-quoted rendering of \<open>s\<close> (the text between double
  quotes, with the escapes Go uses for quotes, backslashes and unprintable characters).
\<close>

datatype frag = Text string | Quoted string

type_synonym error = "frag list"

subsection \<open>Library: package strings\<close>

text \<open>
  Go strings are byte sequences; \<open>string\<close> is a list of 8-bit characters. The white
  space of \<open>unicode.IsSpace\<close>, in UTF-8: the six ASCII characters, U+0085, U+00A0, U+1680,
  U+2000..U+200A, U+2028, U+2029, U+202F, U+205F and U+3000.
\<close>

definition spaceRunes :: "nat list list" where
  "spaceRunes =
     [[0x09], [0x0A], [0x0B], [0x0C], [0x0D], [0x20],
      [0xC2, 0x85], [0xC2, 0xA0], [0xE1, 0x9A, 0x80],
      [0xE2, 0x80, 0x80], [0xE2, 0x80, 0x81], [0xE2, 0x80, 0x82], [0xE2, 0x80, 0x83],
      [0xE2, 0x80, 0x84], [0xE2, 0x80, 0x85], [0xE2, 0x80, 0x86], [0xE2, 0x80, 0x87],
      [0xE2, 0x80, 0x88], [0xE2, 0x80, 0x89], [0xE2, 0x80, 0x8A],
      [0xE2, 0x80, 0xA8], [0xE2, 0x80, 0xA9], [0xE2, 0x80, 0xAF],
      [0xE2, 0x81, 0x9F], [0xE3, 0x80, 0x80]]"

fun startsWith :: "nat list \<Rightarrow> string \<Rightarrow> bool" where
  "startsWith [] bs = True"
| "startsWith (p # ps) [] = False"
| "startsWith (p # ps) (b # bs) = (p = of_char b \<and> startsWith ps bs)"

text \<open>The width in bytes of the white-space rune a byte sequence starts with, 0 if none.\<close>

definition spaceWidth :: "nat list list \<Rightarrow> string \<Rightarrow> nat" where
  "spaceWidth runes bs =
     (case filter (\<lambda>r. startsWith r bs) runes of [] \<Rightarrow> 0 | r # _ \<Rightarrow> length r)"

text \<open>
  Dropping white-space runes from the front; the fuel bounds the number of runes dropped
  and the length of the sequence is always enough.
\<close>

fun dropSpaces :: "nat list list \<Rightarrow> nat \<Rightarrow> string \<Rightarrow> string" where
  "dropSpaces runes 0 bs = bs"
| "dropSpaces runes (Suc n) bs =
     (if spaceWidth runes bs = 0 then bs
      else dropSpaces runes n (drop (spaceWidth runes bs) bs))"

text \<open>
  \<open>strings.TrimSpace\<close>: leading white space is removed rune by rune, then trailing white
  space. A sequence ends with a white-space rune exactly when it ends with that rune's
  UTF-8 encoding, so the trailing runes are matched on the reversed bytes.
\<close>

definition TrimSpace :: "string \<Rightarrow> string" where
  "TrimSpace s =
     (let l = dropSpaces spaceRunes (length s) s
      in rev (dropSpaces (map rev spaceRunes) (length l) (rev l)))"

text \<open>
  \<open>strings.Split(s, ",")\<close>: the substrings between the commas, one more than there are
  commas; an input without a comma (also the empty one) is returned as the only element.
\<close>

fun Split :: "string \<Rightarrow> string list" where
  "Split [] = [[]]"
| "Split (c # cs) =
     (if c = CHR '','' then [] # Split cs
      else (case Split cs of [] \<Rightarrow> [[c]] | p # ps \<Rightarrow> (c # p) # ps))"

subsection \<open>Library: package fmt\<close>

text \<open>The verb \<open>%d\<close> on a non-negative \<open>int\<close>: decimal digits without leading zeros.\<close>

fun itoa :: "nat \<Rightarrow> string" where
  "itoa n = (if n < 10 then [''0123456789'' ! n]
             else itoa (n div 10) @ [''0123456789'' ! (n mod 10)])"

declare itoa.simps [simp del]

subsection \<open>Library: strconv.ParseFloat(s, 64)\<close>

text \<open>
  \<open>ParseFloat\<close> accepts the special values, decimal literals and hexadecimal literals of
  Go, with underscores between digits, and returns the nearest \<open>float64\<close> (IEEE 754
  round to nearest, ties to even). Its errors are \<open>*NumError\<close> values with the messages
  \<open>strconv.ParseFloat: parsing "...": invalid syntax\<close> and \<open>... value out of range\<close>.
\<close>

definition syntaxError :: "string \<Rightarrow> error" where
  "syntaxError s = [Text ''strconv.ParseFloat: parsing '', Quoted s, Text '': invalid syntax'']"

definition rangeError :: "string \<Rightarrow> error" where
  "rangeError s = [Text ''strconv.ParseFloat: parsing '', Quoted s, Text '': value out of range'']"

text \<open>\<open>lower(c)\<close> is \<open>c | ('x' - 'X')\<close>.\<close>

definition lower :: "char \<Rightarrow> nat" where
  "lower c = (of_char c OR 32)"

definition isDigit :: "char \<Rightarrow> bool" where
  "isDigit c \<longleftrightarrow> 48 \<le> (of_char c :: nat) \<and> (of_char c :: nat) \<le> 57"

definition isHexLetter :: "char \<Rightarrow> bool" where
  "isHexLetter c \<longleftrightarrow> 97 \<le> lower c \<and> lower c \<le> 102"

text \<open>\<open>commonPrefixLenIgnoreCase\<close>: only the letters A-Z of \<open>s\<close> are folded.\<close>

fun commonPrefixLenIgnoreCase :: "string \<Rightarrow> string \<Rightarrow> nat" where
  "commonPrefixLenIgnoreCase (c # cs) (p # ps) =
     (let n = (of_char c :: nat);
          n' = (if 65 \<le> n \<and> n \<le> 90 then n + 32 else n)
      in if n' = of_char p then Suc (commonPrefixLenIgnoreCase cs ps) else 0)"
| "commonPrefixLenIgnoreCase cs ps = 0"

text \<open>
  \<open>special\<close>: an optionally signed \<open>inf\<close> or \<open>infinity\<close>, or an unsigned \<open>nan\<close>, in any
  case, at the start of the string; the result is the value and the bytes consumed.
\<close>

definition infinityLen :: "string \<Rightarrow> nat option" where
  "infinityLen s =
     (let n = commonPrefixLenIgnoreCase s ''infinity'';
          n' = (if 3 < n \<and> n < 8 then 3 else n)
      in if n' = 3 \<or> n' = 8 then Some n' else None)"

definition special :: "string \<Rightarrow> (float64 \<times> nat) option" where
  "special s =
     (case s of
        [] \<Rightarrow> None
      | c # cs \<Rightarrow>
          if c = CHR ''+'' \<or> c = CHR ''-'' then
            map_option (\<lambda>n. (Inf64 (c = CHR ''-''), 1 + n)) (infinityLen cs)
          else if c = CHR ''i'' \<or> c = CHR ''I'' then
            map_option (\<lambda>n. (Inf64 False, n)) (infinityLen s)
          else if c = CHR ''n'' \<or> c = CHR ''N'' then
            (if commonPrefixLenIgnoreCase s ''nan'' = 3 then Some (NaN, 3) else None)
          else None)"

text \<open>
  \<open>underscoreOK\<close>: an underscore must follow a digit (or the base prefix) and must be
  followed by a digit. The state \<open>saw\<close> is the kind of the last character seen.
\<close>

datatype saw = SawStart | SawDigit | SawUnderscore | SawOther

fun underscoreLoop :: "bool \<Rightarrow> saw \<Rightarrow> string \<Rightarrow> bool" where
  "underscoreLoop hx sw [] = (sw \<noteq> SawUnderscore)"
| "underscoreLoop hx sw (c # cs) =
     (if isDigit c \<or> (hx \<and> isHexLetter c) then underscoreLoop hx SawDigit cs
      else if c = CHR ''_'' then
        (if sw \<noteq> SawDigit then False else underscoreLoop hx SawUnderscore cs)
      else if sw = SawUnderscore then False
      else underscoreLoop hx SawOther cs)"

definition underscoreOK :: "string \<Rightarrow> bool" where
  "underscoreOK s =
     (let s1 = (case s of c # cs \<Rightarrow> if c = CHR ''-'' \<or> c = CHR ''+'' then cs else s | [] \<Rightarrow> s)
      in case s1 of
           c0 # c1 # cs \<Rightarrow>
             if c0 = CHR ''0'' \<and> (lower c1 = 98 \<or> lower c1 = 111 \<or> lower c1 = 120)
             then underscoreLoop (lower c1 = 120) SawDigit cs
             else underscoreLoop False SawStart s1
         | _ \<Rightarrow> underscoreLoop False SawStart s1)"

text \<open>
  The digits of the mantissa, read as in \<open>readFloat\<close>: underscores are skipped, one dot is
  allowed, letters a-f count in base 16. The scan keeps the integer written by all the
  digits and the number of digits after the dot, and returns the unread rest.
\<close>

record mantissa =
  sawdot :: bool
  sawdigits :: bool
  digitsValue :: nat
  fracDigits :: nat
  underscores :: bool

fun mantissaLoop :: "bool \<Rightarrow> string \<Rightarrow> mantissa \<Rightarrow> mantissa \<times> string" where
  "mantissaLoop hx [] m = (m, [])"
| "mantissaLoop hx (c # cs) m =
     (if c = CHR ''_'' then mantissaLoop hx cs (m\<lparr>underscores := True\<rparr>)
      else if c = CHR ''.'' then
        (if sawdot m then (m, c # cs) else mantissaLoop hx cs (m\<lparr>sawdot := True\<rparr>))
      else if isDigit c then
        mantissaLoop hx cs
          (m\<lparr>sawdigits := True,
             digitsValue := digitsValue m * (if hx then 16 else 10) + (of_char c - 48),
             fracDigits := (if sawdot m then fracDigits m + 1 else fracDigits m)\<rparr>)
      else if hx \<and> isHexLetter c then
        mantissaLoop hx cs
          (m\<lparr>sawdigits := True,
             digitsValue := digitsValue m * 16 + (lower c - 97 + 10),
             fracDigits := (if sawdot m then fracDigits m + 1 else fracDigits m)\<rparr>)
      else (m, c # cs))"

text \<open>The digits of the exponent; the value stops growing once it has reached 10000.\<close>

fun exponentLoop :: "string \<Rightarrow> nat \<Rightarrow> bool \<Rightarrow> nat \<times> bool \<times> string" where
  "exponentLoop [] e us = (e, us, [])"
| "exponentLoop (c # cs) e us =
     (if c = CHR ''_'' then exponentLoop cs e True
      else if isDigit c then
        exponentLoop cs (if e < 10000 then e * 10 + (of_char c - 48) else e) us
      else (e, us, c # cs))"

text \<open>
  The literal read by \<open>readFloat\<close>: sign, base, the integer of the digits, the number of
  fraction digits, the signed exponent (of 10, or of 2 in base 16), and the unread rest.
\<close>

record literal =
  negative :: bool
  hexadecimal :: bool
  digitsInt :: nat
  fractionLen :: nat
  exponent :: int
  rest :: string

definition readExponent :: "bool \<Rightarrow> string \<Rightarrow> (int \<times> bool \<times> string) option" where
  "readExponent hx s =
     (case s of
        [] \<Rightarrow> (if hx then None else Some (0, False, s))
      | c # cs \<Rightarrow>
          if lower c = (if hx then 112 else 101) then
            (case cs of
               [] \<Rightarrow> None
             | d # ds \<Rightarrow>
                 let esign = (if d = CHR ''-'' then - 1 else 1 :: int);
                     r = (if d = CHR ''+'' \<or> d = CHR ''-'' then ds else cs)
                 in (case r of
                       [] \<Rightarrow> None
                     | x # xs \<Rightarrow>
                         if \<not> isDigit x then None
                         else (case exponentLoop r 0 False of
                                 (e, us, r') \<Rightarrow> Some (int e * esign, us, r'))))
          else if hx then None
          else Some (0, False, s))"

definition readFloat :: "string \<Rightarrow> literal option" where
  "readFloat s =
     (case s of
        [] \<Rightarrow> None
      | c # cs \<Rightarrow>
          let neg = (c = CHR ''-'');
              s1 = (if c = CHR ''+'' \<or> c = CHR ''-'' then cs else s);
              hx = (case s1 of
                      c0 # c1 # _ # _ \<Rightarrow> c0 = CHR ''0'' \<and> lower c1 = 120
                    | _ \<Rightarrow> False);
              s2 = (if hx then drop 2 s1 else s1)
          in (case mantissaLoop hx s2
                     \<lparr>sawdot = False, sawdigits = False, digitsValue = 0, fracDigits = 0,
                      underscores = False\<rparr> of
                (m, r) \<Rightarrow>
                  if \<not> sawdigits m then None
                  else (case readExponent hx r of
                          None \<Rightarrow> None
                        | Some (e, us, r') \<Rightarrow>
                            if (underscores m \<or> us)
                               \<and> \<not> underscoreOK (take (length s - length r') s)
                            then None
                            else Some \<lparr>negative = neg, hexadecimal = hx,
                                       digitsInt = digitsValue m, fractionLen = fracDigits m,
                                       exponent = e, rest = r'\<rparr>)))"

text \<open>The number of bits of a natural number; \<open>bitLen 0 = 0\<close>.\<close>

fun bitLen :: "nat \<Rightarrow> nat" where
  "bitLen n = (if n = 0 then 0 else Suc (bitLen (n div 2)))"

declare bitLen.simps [simp del]

text \<open>The quotient \<open>n / d\<close> rounded to the nearest integer, ties to the even one.\<close>

definition roundHalfEven :: "nat \<Rightarrow> nat \<Rightarrow> nat" where
  "roundHalfEven n d =
     (let k = n div d; r = n mod d
      in if 2 * r < d then k
         else if d < 2 * r then k + 1
         else if even k then k else k + 1)"

text \<open>
  The \<open>float64\<close> nearest to \<open>\<plusminus> n / d\<close> (\<open>d > 0\<close>), or \<open>None\<close> when the rounded value is
  beyond the largest finite \<open>float64\<close>. \<open>floorLog2 n d\<close> is the binary exponent of the
  quotient: with \<open>e0\<close> the difference of the bit lengths, the quotient lies between
  \<open>2 ^ (e0 - 1)\<close> and \<open>2 ^ (e0 + 1)\<close>. \<open>scaledRound n d sh\<close> is the quotient in units of
  \<open>2 ^ sh\<close>, rounded. With \<open>E\<close> the exponent, not below -1022, and \<open>m\<close> the quotient in units
  of \<open>2 ^ (E - 52)\<close>, the bit pattern is \<open>(E + 1022) * 2 ^ 52 + m\<close>: \<open>m\<close> carries the
  implicit bit, absent for subnormals.
\<close>

definition floorLog2 :: "nat \<Rightarrow> nat \<Rightarrow> int" where
  "floorLog2 n d =
     (let e0 = int (bitLen n) - int (bitLen d)
      in if (if 0 \<le> e0 then d * 2 ^ nat e0 \<le> n else d \<le> n * 2 ^ nat (- e0))
         then e0 else e0 - 1)"

definition scaledRound :: "nat \<Rightarrow> nat \<Rightarrow> int \<Rightarrow> nat" where
  "scaledRound n d sh =
     (if 0 \<le> sh then roundHalfEven n (d * 2 ^ nat sh)
      else roundHalfEven (n * 2 ^ nat (- sh)) d)"

definition float64bits :: "bool \<Rightarrow> nat \<Rightarrow> nat \<Rightarrow> float64 option" where
  "float64bits neg n d =
     (let sgn = (if neg then 2 ^ 63 else 0 :: nat)
      in if n = 0 then Some (word_of_nat sgn)
         else
           let E = max (floorLog2 n d) (- 1022);
               m = scaledRound n d (E - 52);
               b = nat (E + 1022) * 2 ^ 52 + m
           in if 2047 * 2 ^ 52 \<le> b then None else Some (word_of_nat (sgn + b)))"

text \<open>The value of a literal as a fraction of natural numbers.\<close>

definition literalFraction :: "literal \<Rightarrow> nat \<times> nat" where
  "literalFraction l =
     (let b = (if hexadecimal l then 16 else 10 :: nat);
          p = (if hexadecimal l then 2 else 10 :: nat);
          d = b ^ fractionLen l
      in if 0 \<le> exponent l then (digitsInt l * p ^ nat (exponent l), d)
         else (digitsInt l, d * p ^ nat (- exponent l)))"

definition ParseFloat :: "string \<Rightarrow> error + float64" where
  "ParseFloat s =
     (case special s of
        Some (v, n) \<Rightarrow> if n = length s then Inr v else Inl (syntaxError s)
      | None \<Rightarrow>
          (case readFloat s of
             None \<Rightarrow> Inl (syntaxError s)
           | Some l \<Rightarrow>
               if rest l \<noteq> [] then Inl (syntaxError s)
               else (case literalFraction l of
                       (n, d) \<Rightarrow>
                         (case float64bits (negative l) n d of
                            None \<Rightarrow> Inl (rangeError s)
                          | Some f \<Rightarrow> Inr f))))"

subsection \<open>The record parser\<close>

text \<open>
  \<open>parseQuaternion\<close> (main.go, lines 104-131). \<open>fmt.Errorf\<close> with \<open>%d\<close> prints the number
  of parts; with \<open>%v\<close> it prints the message of the error \<open>ParseFloat\<close> returned.
\<close>

definition parseQuaternion :: "string \<Rightarrow> error + Quaternion" where
  "parseQuaternion line =
     (let parts = Split (TrimSpace line)
      in if length parts \<noteq> 4 then
           Inl [Text (''expected 4 values, got '' @ itoa (length parts))]
         else
           (case ParseFloat (parts ! 0) of
              Inl err \<Rightarrow> Inl (Text ''invalid i value: '' # err)
            | Inr i \<Rightarrow>
                (case ParseFloat (parts ! 1) of
                   Inl err \<Rightarrow> Inl (Text ''invalid j value: '' # err)
                 | Inr j \<Rightarrow>
                     (case ParseFloat (parts ! 2) of
                        Inl err \<Rightarrow> Inl (Text ''invalid k value: '' # err)
                      | Inr k \<Rightarrow>
                          (case ParseFloat (parts ! 3) of
                             Inl err \<Rightarrow> Inl (Text ''invalid real value: '' # err)
                           | Inr real \<Rightarrow> Inr \<lparr>I = i, J = j, K = k, Real = real\<rparr>)))))"

subsection \<open>Library: json.Marshal and the WebSocket connection\<close>

text \<open>
  The bytes \<open>json.Marshal\<close> returns are represented by the JSON document they spell: an
  object is the list of its members in the order written, a number is the \<open>float64\<close> it
  denotes (the encoder prints a finite value with the digits that read back as the same
  value). A \<open>[]byte\<close> is \<open>Some\<close> document, or \<open>None\<close> for the nil slice.
\<close>

datatype json = JNumber float64 | JObject "(string \<times> json) list"

type_synonym bytes = "json option"

text \<open>The encoder of a \<open>float64\<close> refuses NaN and the infinities (\<open>UnsupportedValueError\<close>).\<close>

definition unsupportedValue :: "float64 \<Rightarrow> error" where
  "unsupportedValue f =
     [Text (''json: unsupported value: ''
            @ (if IsNaN f then ''NaN'' else if signBit f then ''-Inf'' else ''+Inf''))]"

definition floatEncoder :: "float64 \<Rightarrow> error + json" where
  "floatEncoder f = (if IsInf f \<or> IsNaN f then Inl (unsupportedValue f) else Inr (JNumber f))"

text \<open>
  \<open>json.Marshal\<close> on a \<open>Quaternion\<close>: the fields in declaration order under the names of
  their struct tags (main.go, lines 20-23); the first field that cannot be encoded
  makes the call fail.
\<close>

definition Marshal :: "Quaternion \<Rightarrow> error + json" where
  "Marshal q =
     (case floatEncoder (I q) of
        Inl err \<Rightarrow> Inl err
      | Inr i \<Rightarrow>
          (case floatEncoder (J q) of
             Inl err \<Rightarrow> Inl err
           | Inr j \<Rightarrow>
               (case floatEncoder (K q) of
                  Inl err \<Rightarrow> Inl err
                | Inr k \<Rightarrow>
                    (case floatEncoder (Real q) of
                       Inl err \<Rightarrow> Inl err
                     | Inr real \<Rightarrow>
                         Inr (JObject [(''i'', i), (''j'', j), (''k'', k), (''real'', real)])))))"

text \<open>A \<open>*websocket.Conn\<close> is known by its address only.\<close>

type_synonym conn = nat

text \<open>The lines written by \<open>log.Printf\<close> and \<open>log.Println\<close>, one constructor per call.\<close>

datatype logEntry =
    LogOpenError
  | LogOpened
  | LogParseError error string
  | LogReadError
  | LogPortClosed
  | LogMarshalError error
  | LogWriteError conn
  | LogUpgradeError
  | LogClientConnected
  | LogClientDisconnected

subsection \<open>The process state\<close>

text \<open>
  The globals \<open>currentQuat\<close> and \<open>clients\<close> (main.go, lines 26-30), and what the program
  has done to the outside: the messages written to each connection, oldest first, the
  connections it has closed, whether it holds an open serial port, and the log.
\<close>

record state =
  currentQuat :: Quaternion
  clients :: "conn \<rightharpoonup> bool"
  sent :: "conn \<Rightarrow> bytes list"
  closed :: "conn set"
  portOpen :: bool
  logged :: "logEntry list"

text \<open>
  At process start \<open>currentQuat\<close> is declared without an initializer and \<open>clients\<close> is an
  empty map.
\<close>

definition init :: state where
  "init = \<lparr>currentQuat = zeroQuaternion, clients = Map.empty, sent = (\<lambda>_. []),
           closed = {}, portOpen = False, logged = []\<rparr>"

definition logPrint :: "logEntry \<Rightarrow> state \<Rightarrow> state" where
  "logPrint l st = st\<lparr>logged := logged st @ [l]\<rparr>"

text \<open>
  \<open>conn.WriteMessage(websocket.TextMessage, data)\<close>. Whether the network takes the
  message is the environment's choice \<open>up\<close>; a connection the program has closed takes
  none. The result is the error flag and the new state.
\<close>

definition WriteMessage :: "(conn \<Rightarrow> bool) \<Rightarrow> conn \<Rightarrow> bytes \<Rightarrow> state \<Rightarrow> bool \<times> state" where
  "WriteMessage up c data st =
     (if c \<in> closed st \<or> \<not> up c then (True, st)
      else (False, st\<lparr>sent := (sent st)(c := sent st c @ [data])\<rparr>))"

definition Close :: "conn \<Rightarrow> state \<Rightarrow> state" where
  "Close c st = st\<lparr>closed := insert c (closed st)\<rparr>"

subsection \<open>The broadcast hub\<close>

text \<open>
  What one call of \<open>broadcastQuaternion\<close> gets from outside: the order in which
  \<open>range clients\<close> produces the keys, and which connections take a message.
\<close>

record pubenv =
  iteration :: "conn list"
  writable :: "conn \<Rightarrow> bool"

text \<open>
  The loop \<open>for client := range clients\<close> (main.go, lines 144-151). A key no longer in
  the map when its turn comes is not produced.
\<close>

fun rangeClients :: "(conn \<Rightarrow> bool) \<Rightarrow> bytes \<Rightarrow> conn list \<Rightarrow> state \<Rightarrow> state" where
  "rangeClients up data [] st = st"
| "rangeClients up data (client # keys) st =
     (if client \<notin> dom (clients st) then rangeClients up data keys st
      else
        (case WriteMessage up client data st of
           (True, st1) \<Rightarrow>
             (let st2 = logPrint (LogWriteError client) st1;
                  st3 = Close client st2;
                  st4 = st3\<lparr>clients := (clients st3)(client := None)\<rparr>
              in rangeClients up data keys st4)
         | (False, st1) \<Rightarrow> rangeClients up data keys st1))"

text \<open>\<open>broadcastQuaternion\<close> (main.go, lines 134-152).\<close>

definition broadcastQuaternion :: "pubenv \<Rightarrow> Quaternion \<Rightarrow> state \<Rightarrow> state" where
  "broadcastQuaternion env quat st =
     (case Marshal quat of
        Inl err \<Rightarrow> logPrint (LogMarshalError err) st
      | Inr data \<Rightarrow> rangeClients (writable env) (Some data) (iteration env) st)"

text \<open>
  \<open>handleWebSocket\<close> up to its read loop (main.go, lines 155-174). \<open>upgraded\<close> is the
  result of \<open>upgrader.Upgrade\<close>: a new connection, or \<open>None\<close> for an error. The errors
  of \<open>json.Marshal\<close> and of \<open>WriteMessage\<close> are discarded; after a failed \<open>Marshal\<close> the
  data is nil.
\<close>

definition handleWebSocket :: "conn option \<Rightarrow> (conn \<Rightarrow> bool) \<Rightarrow> state \<Rightarrow> state" where
  "handleWebSocket upgraded up st =
     (case upgraded of
        None \<Rightarrow> logPrint LogUpgradeError st
      | Some c \<Rightarrow>
          (let st1 = st\<lparr>clients := (clients st)(c \<mapsto> True)\<rparr>;
               st2 = logPrint LogClientConnected st1;
               quat = currentQuat st2;
               data = (case Marshal quat of Inl err \<Rightarrow> None | Inr d \<Rightarrow> Some d)
           in snd (WriteMessage up c data st2)))"

text \<open>The deferred function of \<open>handleWebSocket\<close> (lines 177-183), run when reading fails.\<close>

definition handleWebSocketExit :: "conn \<Rightarrow> state \<Rightarrow> state" where
  "handleWebSocketExit c st =
     (let st1 = st\<lparr>clients := (clients st)(c := None)\<rparr>;
          st2 = Close c st1
      in logPrint LogClientDisconnected st2)"

subsection \<open>The ingest loop\<close>

text \<open>The body of the loop \<open>for scanner.Scan()\<close> (main.go, lines 78-91).\<close>

definition processLine :: "pubenv \<Rightarrow> string \<Rightarrow> state \<Rightarrow> state" where
  "processLine env line st =
     (case parseQuaternion line of
        Inl err \<Rightarrow> logPrint (LogParseError err line) st
      | Inr quat \<Rightarrow> broadcastQuaternion env quat (st\<lparr>currentQuat := quat\<rparr>))"

text \<open>
  \<open>listenSerialPort\<close> (main.go, lines 61-101) as a machine driven by what the serial
  port does. In \<open>Connecting\<close> the loop is at \<open>serial.Open\<close> and no port is open; in
  \<open>Reading\<close> the port is open and the loop is at \<open>scanner.Scan()\<close>. \<open>ScanEnds err\<close> is
  \<open>Scan\<close> returning false, with \<open>err\<close> telling whether \<open>scanner.Err()\<close> is non-nil; the
  loop then calls \<open>port.Close()\<close>.
\<close>

datatype phase = Connecting | Reading

datatype serialEvent =
    OpenFails
  | OpenSucceeds
  | ScanLine string pubenv
  | ScanEnds bool

fun listenStep :: "serialEvent \<Rightarrow> phase \<times> state \<Rightarrow> (phase \<times> state) option" where
  "listenStep OpenFails (Connecting, st) = Some (Connecting, logPrint LogOpenError st)"
| "listenStep OpenSucceeds (Connecting, st) =
     Some (Reading, logPrint LogOpened (st\<lparr>portOpen := True\<rparr>))"
| "listenStep (ScanLine line env) (Reading, st) = Some (Reading, processLine env line st)"
| "listenStep (ScanEnds err) (Reading, st) =
     (let st1 = (if err then logPrint LogReadError st else st);
          st2 = st1\<lparr>portOpen := False\<rparr>
      in Some (Connecting, logPrint LogPortClosed st2))"
| "listenStep ev (ph, st) = None"

text \<open>
  The loop \<open>for scanner.Scan()\<close> over the lines of one open port, each line with the
  environment of its broadcast.
\<close>

definition readLines :: "(string \<times> pubenv) list \<Rightarrow> state \<Rightarrow> state" where
  "readLines ls st = foldl (\<lambda>s (line, env). processLine env line s) st ls"

text \<open>
  \<open>listenSerialPort\<close> as the loop it is. One turn of the outer \<open>for\<close> is one call of
  \<open>serial.Open\<close>: it fails, or it returns a port that delivers some lines and then
  ends, with or without a read error. \<open>listenOnce\<close> is the body of the loop on such an
  attempt; the function has no \<open>return\<close> and no \<open>break\<close>, so the loop goes on with the
  next attempt, \<open>port i\<close> being what the \<open>i\<close>-th call of \<open>serial.Open\<close> brings. A run that
  does not return has the value \<open>None\<close>.
\<close>

datatype attempt = OpenError | Opened "(string \<times> pubenv) list" bool

definition listenOnce :: "attempt \<Rightarrow> state \<Rightarrow> state" where
  "listenOnce a st =
     (case a of
        OpenError \<Rightarrow> logPrint LogOpenError st
      | Opened ls err \<Rightarrow>
          (let st1 = logPrint LogOpened (st\<lparr>portOpen := True\<rparr>);
               st2 = readLines ls st1;
               st3 = (if err then logPrint LogReadError st2 else st2);
               st4 = st3\<lparr>portOpen := False\<rparr>
           in logPrint LogPortClosed st4))"


text \<open>The events of the machine \<open>listenStep\<close> that make up one attempt.\<close>

fun attemptEvents :: "attempt \<Rightarrow> serialEvent list" where
  "attemptEvents OpenError = [OpenFails]"
| "attemptEvents (Opened ls err) =
     OpenSucceeds # map (\<lambda>(line, env). ScanLine line env) ls @ [ScanEnds err]"

text \<open>
  The whole process: the ingest loop and the handlers of the WebSocket endpoint, each
  step atomic. \<open>upgrader.Upgrade\<close> returns a connection that was never seen before.
\<close>

datatype event =
    Serial serialEvent
  | WsConnect "conn option" "conn \<Rightarrow> bool"
  | WsExit conn

definition fresh :: "conn \<Rightarrow> state \<Rightarrow> bool" where
  "fresh c st \<longleftrightarrow> c \<notin> dom (clients st) \<and> c \<notin> closed st \<and> sent st c = []"

fun step :: "event \<Rightarrow> phase \<times> state \<Rightarrow> (phase \<times> state) option" where
  "step (Serial ev) cfg = listenStep ev cfg"
| "step (WsConnect upgraded up) (ph, st) =
     (case upgraded of
        None \<Rightarrow> Some (ph, handleWebSocket None up st)
      | Some c \<Rightarrow> if fresh c st then Some (ph, handleWebSocket (Some c) up st) else None)"
| "step (WsExit c) (ph, st) =
     (if c \<in> dom (clients st) \<or> c \<in> closed st then Some (ph, handleWebSocketExit c st)
      else None)"

fun run :: "event list \<Rightarrow> phase \<times> state \<Rightarrow> (phase \<times> state) option" where
  "run [] cfg = Some cfg"
| "run (ev # evs) cfg = (case step ev cfg of None \<Rightarrow> None | Some cfg' \<Rightarrow> run evs cfg')"

subsection \<open>Notions of the specification\<close>

text \<open>
  The specification calls the four fields by their roles and says that a parse error
  cites a field when its message names the role and carries the text of the field; the
  text appears the way \<open>ParseFloat\<close> prints it, Go-quoted.
\<close>

definition roleName :: "nat \<Rightarrow> string" where
  "roleName k = [''i'', ''j'', ''k'', ''real''] ! k"

definition cites :: "error \<Rightarrow> nat \<Rightarrow> string \<Rightarrow> bool" where
  "cites err k txt \<longleftrightarrow>
     (case err of
        Text t # e \<Rightarrow> t = ''invalid '' @ roleName k @ '' value: '' \<and> Quoted txt \<in> set e
      | _ \<Rightarrow> False)"

text \<open>\<open>strings.Join(parts, ",")\<close>, the inverse of \<open>Split\<close>.\<close>

fun Join :: "string list \<Rightarrow> string" where
  "Join [] = []"
| "Join [p] = p"
| "Join (p # q # ps) = p @ CHR '','' # Join (q # ps)"

text \<open>The records of the lines that parse, in the order of the lines.\<close>

definition parsedRecords :: "string list \<Rightarrow> Quaternion list" where
  "parsedRecords ls =
     concat (map (\<lambda>line. case parseQuaternion line of Inl err \<Rightarrow> [] | Inr q \<Rightarrow> [q]) ls)"

text \<open>The number a string of decimal digits denotes.\<close>

definition decimalValue :: "string \<Rightarrow> nat" where
  "decimalValue s = foldl (\<lambda>a c. 10 * a + (of_char c - 48)) 0 s"

text \<open>
  A base-10 floating-point number as the specification means it: an optional sign, the
  digits before the point, optionally a point and the digits after it (with a digit on
  one side at least), and optionally a power of ten: the letter \<open>e\<close> or \<open>E\<close>, an optional
  sign and digits. The power is below 100000, the largest that \<open>readFloat\<close> reads digit
  by digit.
\<close>

record decimal =
  dsign :: string
  whole :: string
  fraction :: "string option"
  expPart :: "(char \<times> string \<times> string) option"

definition isSign :: "string \<Rightarrow> bool" where
  "isSign s \<longleftrightarrow> s = [] \<or> s = ''+'' \<or> s = ''-''"

definition fractionDigits :: "decimal \<Rightarrow> string" where
  "fractionDigits l = (case fraction l of None \<Rightarrow> [] | Some f \<Rightarrow> f)"

definition wellFormed :: "decimal \<Rightarrow> bool" where
  "wellFormed l \<longleftrightarrow>
     isSign (dsign l) \<and> list_all isDigit (whole l) \<and> list_all isDigit (fractionDigits l)
     \<and> whole l @ fractionDigits l \<noteq> []
     \<and> (case expPart l of
          None \<Rightarrow> True
        | Some (m, s, ds) \<Rightarrow>
            (m = CHR ''e'' \<or> m = CHR ''E'') \<and> isSign s \<and> ds \<noteq> [] \<and> list_all isDigit ds
            \<and> decimalValue ds < 100000)"

text \<open>The text of a decimal: sign, mantissa, power.\<close>

definition mantissaText :: "decimal \<Rightarrow> string" where
  "mantissaText l = whole l @ (case fraction l of None \<Rightarrow> [] | Some f \<Rightarrow> CHR ''.'' # f)"

definition expText :: "decimal \<Rightarrow> string" where
  "expText l = (case expPart l of None \<Rightarrow> [] | Some (m, s, ds) \<Rightarrow> m # s @ ds)"

definition decimalText :: "decimal \<Rightarrow> string" where
  "decimalText l = dsign l @ mantissaText l @ expText l"

text \<open>
  The magnitude of the number a decimal denotes, as a fraction, and the \<open>float64\<close>
  nearest to the number, with its sign, when that is finite.
\<close>

definition decimalFraction :: "decimal \<Rightarrow> nat \<times> nat" where
  "decimalFraction l =
     (let m = decimalValue (whole l @ fractionDigits l);
          d = 10 ^ length (fractionDigits l)
      in case expPart l of
           None \<Rightarrow> (m, d)
         | Some (mk, s, ds) \<Rightarrow>
             if s = ''-'' then (m, d * 10 ^ decimalValue ds)
             else (m * 10 ^ decimalValue ds, d))"

definition decimalFloat64 :: "decimal \<Rightarrow> float64 option" where
  "decimalFloat64 l = (case decimalFraction l of (n, d) \<Rightarrow> float64bits (dsign l = ''-'') n d)"

text \<open>
  White space: a sequence of bytes that is the concatenation of the UTF-8 encodings of
  white-space runes.
\<close>

inductive spaces :: "nat list list \<Rightarrow> string \<Rightarrow> bool" for runes where
  none: "spaces runes []"
| rune: "map of_char bs \<in> set runes \<Longrightarrow> spaces runes ws \<Longrightarrow> spaces runes (bs @ ws)"

definition whitespace :: "string \<Rightarrow> bool" where
  "whitespace ws \<longleftrightarrow> spaces spaceRunes ws"



text \<open>
  The identity record of the specification, \<open>i = j = k = 0\<close> and \<open>real = 1\<close>; the
  \<open>float64\<close> 1.0 has the bit pattern \<open>0x3FF0000000000000\<close>.
\<close>

definition identityQuaternion :: Quaternion where
  "identityQuaternion = \<lparr>I = 0, J = 0, K = 0, Real = 0x3FF0000000000000\<rparr>"

text \<open>A connection the program has closed and that is not in \<open>clients\<close>.\<close>

definition evicted :: "conn \<Rightarrow> state \<Rightarrow> bool" where
  "evicted c st \<longleftrightarrow> c \<in> closed st \<and> c \<notin> dom (clients st)"

subsection \<open>Sample inputs\<close>

text \<open>A network on which every write succeeds, and one that refuses connection 1.\<close>

definition allUp :: "conn \<Rightarrow> bool" where
  "allUp c = True"

definition down1 :: "conn \<Rightarrow> bool" where
  "down1 c \<longleftrightarrow> c \<noteq> 1"

text \<open>The records the lines \<open>NaN,0,0,1\<close> and \<open>Inf,0,0,1\<close> parse to.\<close>

definition nanQuaternion :: Quaternion where
  "nanQuaternion = \<lparr>I = NaN, J = 0, K = 0, Real = 0x3FF0000000000000\<rparr>"

definition infQuaternion :: Quaternion where
  "infQuaternion = \<lparr>I = Inf64 False, J = 0, K = 0, Real = 0x3FF0000000000000\<rparr>"

text \<open>The JSON documents of the zero record and of the identity record.\<close>

definition zeroJSON :: json where
  "zeroJSON = JObject [(''i'', JNumber 0), (''j'', JNumber 0), (''k'', JNumber 0),
                       (''real'', JNumber 0)]"

definition identityJSON :: json where
  "identityJSON = JObject [(''i'', JNumber 0), (''j'', JNumber 0), (''k'', JNumber 0),
                           (''real'', JNumber 0x3FF0000000000000)]"

text \<open>The state after connection 1, and after connections 1 and 2, have joined at start.\<close>

definition oneClient :: state where
  "oneClient = handleWebSocket (Some 1) allUp init"

definition twoClients :: state where
  "twoClients = handleWebSocket (Some 2) allUp oneClient"

section \<open>Evaluation on concrete inputs\<close>

lemma bitLen_0: "bitLen 0 = 0"
  by (simp add: bitLen.simps)

lemma bitLen_1: "bitLen (Suc 0) = 1"
  by (simp add: bitLen.simps)

lemma bitLen_numeral: "bitLen (numeral k) = Suc (bitLen (numeral k div 2))"
  by (subst bitLen.simps) simp

lemmas strings_eval = TrimSpace_def spaceWidth_def spaceRunes_def Let_def

lemmas scan_eval = readFloat_def readExponent_def isDigit_def isHexLetter_def lower_def
  underscoreOK_def Let_def

lemmas round_eval = float64bits_def floorLog2_def scaledRound_def roundHalfEven_def
  bitLen_0 bitLen_1 bitLen_numeral Let_def

lemma ParseFloat_0: "ParseFloat ''0'' = Inr 0"
proof -
  have s: "special ''0'' = None" by (simp add: special_def)
  have r: "readFloat ''0'' = Some \<lparr>negative = False, hexadecimal = False, digitsInt = 0,
      fractionLen = 0, exponent = 0, rest = []\<rparr>"
    by (simp add: scan_eval)
  show ?thesis by (simp add: ParseFloat_def s r literalFraction_def float64bits_def)
qed

lemma ParseFloat_1: "ParseFloat ''1'' = Inr 0x3FF0000000000000"
proof -
  have s: "special ''1'' = None" by (simp add: special_def)
  have r: "readFloat ''1'' = Some \<lparr>negative = False, hexadecimal = False, digitsInt = 1,
      fractionLen = 0, exponent = 0, rest = []\<rparr>"
    by (simp add: scan_eval)
  have f: "float64bits False (Suc 0) (Suc 0) = Some 0x3FF0000000000000" by (simp add: round_eval)
  show ?thesis by (simp add: ParseFloat_def s r literalFraction_def f)
qed

lemma ParseFloat_tenths:
  "ParseFloat ''0.1'' = Inr 0x3FB999999999999A"
  "ParseFloat ''0.2'' = Inr 0x3FC999999999999A"
  "ParseFloat ''0.3'' = Inr 0x3FD3333333333333"
  "ParseFloat ''0.9'' = Inr 0x3FECCCCCCCCCCCCD"
proof -
  have s: "special ''0.1'' = None" "special ''0.2'' = None" "special ''0.3'' = None"
    "special ''0.9'' = None"
    by (simp_all add: special_def)
  have r: "readFloat ''0.1'' = Some \<lparr>negative = False, hexadecimal = False, digitsInt = 1,
      fractionLen = 1, exponent = 0, rest = []\<rparr>"
    "readFloat ''0.2'' = Some \<lparr>negative = False, hexadecimal = False, digitsInt = 2,
      fractionLen = 1, exponent = 0, rest = []\<rparr>"
    "readFloat ''0.3'' = Some \<lparr>negative = False, hexadecimal = False, digitsInt = 3,
      fractionLen = 1, exponent = 0, rest = []\<rparr>"
    "readFloat ''0.9'' = Some \<lparr>negative = False, hexadecimal = False, digitsInt = 9,
      fractionLen = 1, exponent = 0, rest = []\<rparr>"
    by (simp_all add: scan_eval)
  have f: "float64bits False (Suc 0) 10 = Some 0x3FB999999999999A"
    "float64bits False 2 10 = Some 0x3FC999999999999A"
    "float64bits False 3 10 = Some 0x3FD3333333333333"
    "float64bits False 9 10 = Some 0x3FECCCCCCCCCCCCD"
    by (simp_all add: round_eval)
  show "ParseFloat ''0.1'' = Inr 0x3FB999999999999A"
    "ParseFloat ''0.2'' = Inr 0x3FC999999999999A"
    "ParseFloat ''0.3'' = Inr 0x3FD3333333333333"
    "ParseFloat ''0.9'' = Inr 0x3FECCCCCCCCCCCCD"
    by (simp_all add: ParseFloat_def s r literalFraction_def f)
qed

lemma ParseFloat_letters:
  "ParseFloat ''abc'' = Inl (syntaxError ''abc'')"
  "ParseFloat ''def'' = Inl (syntaxError ''def'')"
proof -
  have s: "special ''abc'' = None" "special ''def'' = None" by (simp_all add: special_def)
  have r: "readFloat ''abc'' = None" "readFloat ''def'' = None" by (simp_all add: scan_eval)
  show "ParseFloat ''abc'' = Inl (syntaxError ''abc'')"
    "ParseFloat ''def'' = Inl (syntaxError ''def'')"
    by (simp_all add: ParseFloat_def s r)
qed

lemma ParseFloat_NaN: "ParseFloat ''NaN'' = Inr NaN"
proof -
  have s: "special ''NaN'' = Some (NaN, 3)" by (simp add: special_def)
  show ?thesis by (simp add: ParseFloat_def s)
qed

lemma ParseFloat_Inf: "ParseFloat ''Inf'' = Inr (Inf64 False)"
proof -
  have s: "special ''Inf'' = Some (Inf64 False, 3)" by (simp add: special_def infinityLen_def)
  show ?thesis by (simp add: ParseFloat_def s)
qed

lemma IsNaN_NaN: "IsNaN NaN"
  by (simp add: IsNaN_def NaN_def expBits_def fracBits_def)

lemma IsInf_Inf64: "IsInf (Inf64 neg)"
  by (simp add: IsInf_def Inf64_def expBits_def fracBits_def)

lemma finite_0: "\<not> IsInf 0" "\<not> IsNaN 0"
  by (simp_all add: IsInf_def IsNaN_def expBits_def)

lemma finite_1: "\<not> IsInf 0x3FF0000000000000" "\<not> IsNaN 0x3FF0000000000000"
  by (simp_all add: IsInf_def IsNaN_def expBits_def)

section \<open>The library models\<close>

subsection \<open>Split and TrimSpace\<close>

lemma Split_not_Nil: "Split s \<noteq> []"
  by (induction s) (auto split: list.splits)

text \<open>\<open>Split\<close> returns one field more than there are commas, no field holds a comma, and
  joining the fields with commas gives the string back.\<close>

lemma Split_length: "length (Split s) = Suc (length (filter (\<lambda>c. c = CHR '','') s))"
  by (induction s) (auto split: list.splits simp: Split_not_Nil)

lemma Split_no_comma: "p \<in> set (Split s) \<Longrightarrow> CHR '','' \<notin> set p"
  by (induction s arbitrary: p) (auto split: list.splits if_splits)

lemma Join_Split: "Join (Split s) = s"
proof (induction s)
  case Nil
  then show ?case by simp
next
  case (Cons c s)
  obtain p ps where sp: "Split s = p # ps" using Split_not_Nil [of s] by (cases "Split s") auto
  with Cons show ?case by (cases ps) auto
qed

lemma spaceWidth_cases:
  "spaceWidth runes bs = 0 \<or> (\<exists>r \<in> set runes. spaceWidth runes bs = length r)"
proof (cases "filter (\<lambda>r. startsWith r bs) runes")
  case Nil
  then show ?thesis by (simp add: spaceWidth_def)
next
  case (Cons r rs)
  then have "r \<in> set (filter (\<lambda>r. startsWith r bs) runes)" by simp
  then have "r \<in> set runes" by simp
  with Cons show ?thesis by (auto simp: spaceWidth_def)
qed

lemma spaceWidth_0_iff:
  assumes "[] \<notin> set runes"
  shows "spaceWidth runes bs = 0 \<longleftrightarrow> (\<forall>r \<in> set runes. \<not> startsWith r bs)"
proof (cases "filter (\<lambda>r. startsWith r bs) runes")
  case Nil
  then show ?thesis by (auto simp: spaceWidth_def filter_empty_conv)
next
  case (Cons r rs)
  then have "r \<in> set (filter (\<lambda>r. startsWith r bs) runes)" by simp
  then have "r \<in> set runes" "startsWith r bs" by simp_all
  moreover from this assms have "r \<noteq> []" by auto
  ultimately show ?thesis using Cons by (auto simp: spaceWidth_def)
qed

text \<open>The fuel of \<open>dropSpaces\<close> is enough: no white-space rune is left at the front.\<close>

lemma dropSpaces_done:
  assumes "[] \<notin> set runes"
  shows "length bs \<le> n \<Longrightarrow> spaceWidth runes (dropSpaces runes n bs) = 0"
proof (induction n arbitrary: bs)
  case 0
  then have "bs = []" by simp
  moreover have "filter (\<lambda>r. startsWith r []) runes = []"
    using assms by (induction runes) (auto elim: startsWith.elims)
  ultimately show ?case by (simp add: spaceWidth_def)
next
  case (Suc n)
  show ?case
  proof (cases "spaceWidth runes bs = 0")
    case True
    then show ?thesis by simp
  next
    case False
    with spaceWidth_cases [of runes bs] obtain r
      where "r \<in> set runes" "spaceWidth runes bs = length r"
      by auto
    with assms have "0 < spaceWidth runes bs" by (cases r) auto
    with Suc.prems have "length (drop (spaceWidth runes bs) bs) \<le> n" by simp
    from Suc.IH [OF this] False show ?thesis by simp
  qed
qed

lemma dropSpaces_drop: "\<exists>k. dropSpaces runes n bs = drop k bs"
proof (induction n arbitrary: bs)
  case 0
  have "dropSpaces runes 0 bs = drop 0 bs" by simp
  then show ?case by blast
next
  case (Suc n)
  show ?case
  proof (cases "spaceWidth runes bs = 0")
    case True
    then have "dropSpaces runes (Suc n) bs = drop 0 bs" by simp
    then show ?thesis by blast
  next
    case False
    from Suc.IH [of "drop (spaceWidth runes bs) bs"] obtain k
      where "dropSpaces runes n (drop (spaceWidth runes bs) bs)
             = drop k (drop (spaceWidth runes bs) bs)"
      by blast
    with False have "dropSpaces runes (Suc n) bs = drop (k + spaceWidth runes bs) bs" by simp
    then show ?thesis by blast
  qed
qed

lemma startsWith_take: "startsWith r (take m bs) \<Longrightarrow> startsWith r bs"
proof (induction r bs arbitrary: m rule: startsWith.induct)
  case (1 bs)
  then show ?case by simp
next
  case (2 p ps)
  then show ?case by simp
next
  case (3 p ps b bs)
  then show ?case by (cases m) auto
qed

text \<open>
  \<open>TrimSpace\<close> returns a substring of its argument that neither starts nor ends with a
  white-space rune.
\<close>

lemma TrimSpace_substring: "\<exists>l r. s = l @ TrimSpace s @ r"
proof -
  obtain k where k: "dropSpaces spaceRunes (length s) s = drop k s"
    using dropSpaces_drop by blast
  obtain j where j: "dropSpaces (map rev spaceRunes) (length (drop k s)) (rev (drop k s))
                     = drop j (rev (drop k s))"
    using dropSpaces_drop by blast
  have t: "TrimSpace s = rev (drop j (rev (drop k s)))"
    using j by (simp add: TrimSpace_def Let_def k)
  have "drop k s = rev (drop j (rev (drop k s))) @ rev (take j (rev (drop k s)))"
    by (metis append_take_drop_id rev_append rev_rev_ident)
  then have "s = take k s @ TrimSpace s @ rev (take j (rev (drop k s)))"
    by (metis t append_take_drop_id)
  then show ?thesis by blast
qed

lemma TrimSpace_no_leading_space: "spaceWidth spaceRunes (TrimSpace s) = 0"
proof -
  have ne: "[] \<notin> set spaceRunes" by (simp add: spaceRunes_def)
  let ?l = "dropSpaces spaceRunes (length s) s"
  have l0: "spaceWidth spaceRunes ?l = 0" by (rule dropSpaces_done [OF ne]) simp
  obtain j where "dropSpaces (map rev spaceRunes) (length ?l) (rev ?l) = drop j (rev ?l)"
    using dropSpaces_drop by blast
  then have "TrimSpace s = take (length ?l - j) ?l"
    by (simp add: TrimSpace_def Let_def rev_drop)
  with l0 show ?thesis
    by (auto simp: spaceWidth_0_iff [OF ne] dest: startsWith_take)
qed

lemma TrimSpace_no_trailing_space:
  "spaceWidth (map rev spaceRunes) (rev (TrimSpace s)) = 0"
proof -
  have "[] \<notin> set (map rev spaceRunes)" by (simp add: spaceRunes_def)
  from dropSpaces_done [OF this, of "rev (dropSpaces spaceRunes (length s) s)"
      "length (dropSpaces spaceRunes (length s) s)"]
  show ?thesis by (simp add: TrimSpace_def Let_def)
qed

text \<open>A piece without a comma, followed by a comma, is the first field.\<close>

lemma Split_field: "CHR '','' \<notin> set p \<Longrightarrow> Split (p @ CHR '','' # r) = p # Split r"
  by (induction p) auto

lemma Split_single: "CHR '','' \<notin> set p \<Longrightarrow> Split p = [p]"
  by (induction p) auto

lemma Split_Join4:
  assumes "CHR '','' \<notin> set a" and "CHR '','' \<notin> set b" and "CHR '','' \<notin> set c"
    and "CHR '','' \<notin> set d"
  shows "Split (Join [a, b, c, d]) = [a, b, c, d]"
  by (simp add: Split_field [OF assms(1)] Split_field [OF assms(2)] Split_field [OF assms(3)]
      Split_single [OF assms(4)])

text \<open>
  No white-space rune is the beginning of another one, and none is the end of another
  one; so white space in front of a text that starts with no rune is dropped entirely,
  and \<open>TrimSpace\<close> returns the text between two runs of white space when the text
  begins and ends with a printable ASCII character.
\<close>

lemma startsWith_iff:
  "startsWith r bs \<longleftrightarrow> length r \<le> length bs \<and> map of_char (take (length r) bs) = r"
  by (induction r bs rule: startsWith.induct) auto

lemma spaceWidth_rune:
  assumes pf: "\<forall>r \<in> set runes. \<forall>r' \<in> set runes.
                 length r \<le> length r' \<and> take (length r) r' = r \<longrightarrow> r = r'"
    and r0: "map of_char bs \<in> set runes"
  shows "spaceWidth runes (bs @ y) = length bs"
proof -
  let ?r0 = "map of_char bs :: nat list"
  let ?m = "filter (\<lambda>r. startsWith r (bs @ y)) runes"
  have s0: "startsWith ?r0 (bs @ y)" by (simp add: startsWith_iff)
  have all: "r = ?r0" if "r \<in> set ?m" for r
  proof -
    from that have r: "r \<in> set runes" and s: "startsWith r (bs @ y)" by simp_all
    from s have len: "length r \<le> length (bs @ y)"
      and t: "map of_char (take (length r) (bs @ y)) = r"
      by (simp_all add: startsWith_iff)
    show ?thesis
    proof (cases "length r \<le> length bs")
      case True
      then have "take (length r) ?r0 = r" using t by (simp add: take_map)
      with True pf r r0 show ?thesis by (metis length_map)
    next
      case False
      then have "take (length ?r0) r = ?r0"
        using t by (metis append_eq_conv_conj length_map map_append append_take_drop_id
            take_all_iff linorder_le_cases take_append take_map)
      moreover from False have "length ?r0 \<le> length r" by simp
      ultimately show ?thesis using pf r r0 by metis
    qed
  qed
  from s0 r0 have "?r0 \<in> set ?m" by simp
  then obtain h t where m: "?m = h # t" by (cases ?m) auto
  then have "h \<in> set ?m" by simp
  from all [OF this] m show ?thesis by (simp add: spaceWidth_def)
qed

lemma dropSpaces_spaces:
  assumes pf: "\<forall>r \<in> set runes. \<forall>r' \<in> set runes.
                 length r \<le> length r' \<and> take (length r) r' = r \<longrightarrow> r = r'"
    and ne: "[] \<notin> set runes"
    and x: "spaceWidth runes x = 0"
  shows "spaces runes ws \<Longrightarrow> length ws \<le> n \<Longrightarrow> dropSpaces runes n (ws @ x) = x"
proof (induction ws arbitrary: n rule: spaces.induct)
  case none
  with x show ?case by (cases n) simp_all
next
  case (rune bs ws)
  from rune.hyps(1) ne have "bs \<noteq> []" by auto
  then obtain b bs' where "bs = b # bs'" by (cases bs) auto
  with rune.prems have "Suc (length ws) \<le> n" by simp
  then obtain n' where n: "n = Suc n'" and le: "length ws \<le> n'"
    by (cases n) simp_all
  from spaceWidth_rune [OF pf rune.hyps(1), of "ws @ x"]
  have w: "spaceWidth runes (bs @ ws @ x) = length bs" .
  have "dropSpaces runes (Suc n') (bs @ ws @ x)
        = dropSpaces runes n' (drop (length bs) (bs @ ws @ x))"
    using \<open>bs \<noteq> []\<close> by (simp add: w)
  also have "\<dots> = dropSpaces runes n' (ws @ x)" by simp
  also have "\<dots> = x" by (rule rune.IH [OF le])
  finally show ?case by (simp add: n)
qed

lemma spaces_append: "spaces runes a \<Longrightarrow> spaces runes b \<Longrightarrow> spaces runes (a @ b)"
proof (induction rule: spaces.induct)
  case none
  then show ?case by simp
next
  case (rune bs ws)
  from spaces.rune [OF rune.hyps(1) rune.IH [OF rune.prems]] show ?case by simp
qed

lemma spaces_rev: "spaces runes ws \<Longrightarrow> spaces (map rev runes) (rev ws)"
proof (induction rule: spaces.induct)
  case none
  then show ?case by (simp add: spaces.none)
next
  case (rune bs ws)
  from rune.hyps(1) have "rev (map of_char bs) \<in> rev ` set runes"
    by (rule imageI)
  then have "map of_char (rev bs) \<in> set (map rev runes)"
    by (simp add: rev_map)
  from spaces.rune [OF this spaces.none] have "spaces (map rev runes) (rev bs)" by simp
  with rune.IH show ?case by (simp add: spaces_append)
qed

lemma spaceRunes_prefix_free:
  "\<forall>r \<in> set spaceRunes. \<forall>r' \<in> set spaceRunes.
     length r \<le> length r' \<and> take (length r) r' = r \<longrightarrow> r = r'"
  by (simp add: spaceRunes_def)

lemma spaceRunes_suffix_free:
  "\<forall>r \<in> set (map rev spaceRunes). \<forall>r' \<in> set (map rev spaceRunes).
     length r \<le> length r' \<and> take (length r) r' = r \<longrightarrow> r = r'"
  by (simp add: spaceRunes_def)

lemma spaceWidth_graphic:
  assumes "33 \<le> (of_char c :: nat)" and "(of_char c :: nat) \<le> 126"
  shows "spaceWidth spaceRunes (c # y) = 0" and "spaceWidth (map rev spaceRunes) (c # y) = 0"
  using assms by (simp_all add: spaceWidth_def spaceRunes_def)

lemma TrimSpace_between:
  assumes "whitespace ws1" and "whitespace ws2" and "body \<noteq> []"
    and "33 \<le> (of_char (hd body) :: nat)" and "(of_char (hd body) :: nat) \<le> 126"
    and "33 \<le> (of_char (last body) :: nat)" and "(of_char (last body) :: nat) \<le> 126"
  shows "TrimSpace (ws1 @ body @ ws2) = body"
proof -
  have ne: "[] \<notin> set spaceRunes" "[] \<notin> set (map rev spaceRunes)"
    by (simp_all add: spaceRunes_def)
  from assms(3) have h: "body @ ws2 = hd body # (tl body @ ws2)" by simp
  have x1: "spaceWidth spaceRunes (body @ ws2) = 0"
    by (subst h) (rule spaceWidth_graphic [OF assms(4,5)])
  from assms(3) have l: "rev body = last body # rev (butlast body)"
    by (metis append_butlast_last_id rev.simps(2) rev_rev_ident rev_swap rev_append
        append_Cons append_Nil rev_singleton_conv)
  have x2: "spaceWidth (map rev spaceRunes) (rev body) = 0"
    by (subst l) (rule spaceWidth_graphic [OF assms(6,7)])
  from assms(1) have s1: "spaces spaceRunes ws1" by (simp add: whitespace_def)
  from assms(2) have s2: "spaces (map rev spaceRunes) (rev ws2)"
    by (simp add: whitespace_def spaces_rev)
  have a: "dropSpaces spaceRunes (length (ws1 @ body @ ws2)) (ws1 @ body @ ws2) = body @ ws2"
    by (rule dropSpaces_spaces [OF spaceRunes_prefix_free ne(1) x1 s1]) simp
  have b: "dropSpaces (map rev spaceRunes) (length (body @ ws2)) (rev ws2 @ rev body) = rev body"
    by (rule dropSpaces_spaces [OF spaceRunes_suffix_free ne(2) x2 s2]) simp
  show ?thesis
    unfolding TrimSpace_def Let_def a rev_append b by simp
qed


subsection \<open>ParseFloat\<close>

lemma bitLen_gt: "2 ^ k \<le> n \<Longrightarrow> k < bitLen n"
proof (induction k arbitrary: n)
  case 0
  then show ?case by (subst bitLen.simps) simp
next
  case (Suc k)
  from Suc.prems have p: "2 * 2 ^ k \<le> n" by simp
  have "(0 :: nat) < 2 ^ k" by simp
  with p have "n \<noteq> 0" by linarith
  moreover from p have "2 ^ k \<le> n div 2" by linarith
  ultimately show ?case using Suc.IH [of "n div 2"] by (subst bitLen.simps) simp
qed

text \<open>An integer of more than 1026 bits is beyond the largest \<open>float64\<close>.\<close>

lemma float64bits_overflow:
  assumes "2 ^ 1026 \<le> n"
  shows "float64bits neg n (Suc 0) = None"
proof -
  from bitLen_gt [OF assms] have b: "1026 < bitLen n" .
  from assms have n: "n \<noteq> 0" by auto
  have "1025 \<le> floorLog2 n (Suc 0)"
    using b by (simp add: floorLog2_def bitLen_1 Let_def)
  then have "2047 \<le> nat (max (floorLog2 n (Suc 0)) (- 1022) + 1022)" by simp
  then have "2047 * 2 ^ 52 \<le> nat (max (floorLog2 n (Suc 0)) (- 1022) + 1022) * (2 ^ 52 :: nat)"
    by (rule mult_le_mono1)
  then have "2047 * 2 ^ 52 \<le> nat (max (floorLog2 n (Suc 0)) (- 1022) + 1022) * 2 ^ 52
               + scaledRound n (Suc 0) (max (floorLog2 n (Suc 0)) (- 1022) - 52)"
    by (rule trans_le_add1)
  with n show ?thesis by (simp only: float64bits_def Let_def if_False if_True)
qed

text \<open>
  A decimal literal beyond the range of \<open>float64\<close> is a range error of \<open>ParseFloat\<close>, not
  a value.
\<close>

lemma ParseFloat_out_of_range: "ParseFloat ''1e309'' = Inl (rangeError ''1e309'')"
proof -
  have s: "special ''1e309'' = None" by (simp add: special_def)
  have r: "readFloat ''1e309'' = Some \<lparr>negative = False, hexadecimal = False, digitsInt = 1,
      fractionLen = 0, exponent = 309, rest = []\<rparr>"
    by (simp add: scan_eval)
  have "(2 :: nat) ^ 1026 \<le> 10 ^ 309" by simp
  then have f: "float64bits False (10 ^ 309) (Suc 0) = None" by (rule float64bits_overflow)
  then show ?thesis by (simp add: ParseFloat_def s r literalFraction_def)
qed

subsection \<open>ParseFloat on decimal numbers\<close>

lemma isDigit_not_punct:
  "isDigit c \<Longrightarrow> c \<noteq> CHR ''_'' \<and> c \<noteq> CHR ''.'' \<and> c \<noteq> CHR '','' \<and> c \<noteq> CHR ''+''
     \<and> c \<noteq> CHR ''-'' \<and> c \<noteq> CHR ''i'' \<and> c \<noteq> CHR ''I'' \<and> c \<noteq> CHR ''n'' \<and> c \<noteq> CHR ''N''
     \<and> c \<noteq> CHR ''e'' \<and> c \<noteq> CHR ''E''"
  by (auto simp: isDigit_def)

lemma isDigit_lower: "isDigit c \<Longrightarrow> lower c = of_char c"
proof -
  assume "isDigit c"
  then have "48 \<le> (of_char c :: nat)" "(of_char c :: nat) \<le> 57" by (simp_all add: isDigit_def)
  then consider "(of_char c :: nat) = 48" | "(of_char c :: nat) = 49" | "(of_char c :: nat) = 50"
    | "(of_char c :: nat) = 51" | "(of_char c :: nat) = 52" | "(of_char c :: nat) = 53"
    | "(of_char c :: nat) = 54" | "(of_char c :: nat) = 55" | "(of_char c :: nat) = 56"
    | "(of_char c :: nat) = 57"
    by atomize_elim arith
  then show ?thesis by cases (simp_all add: lower_def)
qed

lemma lower_marks:
  "lower CHR ''e'' = 101" "lower CHR ''E'' = 101" "lower CHR ''.'' = 46"
  by (simp_all add: lower_def)

lemma mantissaLoop_digits:
  "list_all isDigit ds \<Longrightarrow>
   mantissaLoop False (ds @ r)
     \<lparr>sawdot = sd, sawdigits = sg, digitsValue = v, fracDigits = fd, underscores = u\<rparr>
   = mantissaLoop False r
     \<lparr>sawdot = sd, sawdigits = (sg \<or> ds \<noteq> []),
      digitsValue = foldl (\<lambda>a c. 10 * a + (of_char c - 48)) v ds,
      fracDigits = (if sd then fd + length ds else fd), underscores = u\<rparr>"
proof (induction ds arbitrary: sg v fd)
  case Nil
  then show ?case by simp
next
  case (Cons c ds)
  from Cons.prems have c: "isDigit c" and ds: "list_all isDigit ds" by simp_all
  from isDigit_not_punct [OF c] have n: "c \<noteq> CHR ''_''" "c \<noteq> CHR ''.''" by simp_all
  show ?case
    by (simp add: c n Cons.IH [OF ds] mult.commute)
qed

lemma mantissaLoop_stop:
  "r = [] \<or> hd r = CHR ''e'' \<or> hd r = CHR ''E'' \<Longrightarrow> mantissaLoop False r m = (m, r)"
  by (cases r) (auto simp: isDigit_def)

lemma foldl_digits_ge: "a \<le> foldl (\<lambda>a c. 10 * a + ((of_char c :: nat) - 48)) a ds"
proof (induction ds arbitrary: a)
  case Nil
  then show ?case by simp
next
  case (Cons c ds)
  have "a \<le> 10 * a + ((of_char c :: nat) - 48)" by simp
  also have "\<dots> \<le> foldl (\<lambda>a c. 10 * a + ((of_char c :: nat) - 48)) (10 * a + (of_char c - 48)) ds"
    by (rule Cons.IH)
  finally show ?case by simp
qed

lemma exponentLoop_digits:
  "list_all isDigit ds \<Longrightarrow> foldl (\<lambda>a c. 10 * a + (of_char c - 48)) e ds < 100000 \<Longrightarrow>
   exponentLoop ds e us = (foldl (\<lambda>a c. 10 * a + (of_char c - 48)) e ds, us, [])"
proof (induction ds arbitrary: e)
  case Nil
  then show ?case by simp
next
  case (Cons c ds)
  from Cons.prems have c: "isDigit c" and ds: "list_all isDigit ds" by simp_all
  from isDigit_not_punct [OF c] have n: "c \<noteq> CHR ''_''" by simp
  let ?e = "10 * e + ((of_char c :: nat) - 48)"
  from Cons.prems(2) have lt: "foldl (\<lambda>a c. 10 * a + (of_char c - 48)) ?e ds < 100000" by simp
  with foldl_digits_ge [of ?e ds] have "?e < 100000" by simp
  then have e: "e < 10000" by simp
  from Cons.IH [OF ds lt] show ?case
    by (simp add: c n e mult.commute)
qed

lemma hex_free:
  "\<forall>c \<in> set s. lower c \<noteq> 120 \<Longrightarrow>
   (case s of c0 # c1 # _ # _ \<Rightarrow> c0 = CHR ''0'' \<and> lower c1 = 120 | _ \<Rightarrow> False) = False"
  by (auto split: list.splits)

lemma readFloat_parts:
  assumes "s1 = (if c = CHR ''+'' \<or> c = CHR ''-'' then cs else c # cs)"
    and "\<forall>x \<in> set s1. lower x \<noteq> 120"
    and "mantissaLoop False s1
           \<lparr>sawdot = False, sawdigits = False, digitsValue = 0, fracDigits = 0,
            underscores = False\<rparr> = (m, r)"
    and "sawdigits m" and "\<not> underscores m"
    and "readExponent False r = Some (e, False, r')"
  shows "readFloat (c # cs)
         = Some \<lparr>negative = (c = CHR ''-''), hexadecimal = False, digitsInt = digitsValue m,
                 fractionLen = fracDigits m, exponent = e, rest = r'\<rparr>"
proof -
  from hex_free [OF assms(2)]
  have h: "(case s1 of c0 # c1 # _ # _ \<Rightarrow> c0 = CHR ''0'' \<and> lower c1 = 120 | _ \<Rightarrow> False) = False" .
  show ?thesis
    unfolding readFloat_def list.case Let_def assms(1) [symmetric] h if_False assms(3) prod.case
    using assms(4,5,6) by simp
qed

lemma mantissa_decimal:
  assumes "wellFormed l"
  shows "mantissaLoop False (mantissaText l @ expText l)
           \<lparr>sawdot = False, sawdigits = False, digitsValue = 0, fracDigits = 0,
            underscores = False\<rparr>
         = (\<lparr>sawdot = (fraction l \<noteq> None), sawdigits = True,
             digitsValue = decimalValue (whole l @ fractionDigits l),
             fracDigits = length (fractionDigits l), underscores = False\<rparr>, expText l)"
proof -
  from assms have w: "list_all isDigit (whole l)" and f: "list_all isDigit (fractionDigits l)"
    and ne: "whole l @ fractionDigits l \<noteq> []"
    by (simp_all add: wellFormed_def)
  from assms have stop: "expText l = [] \<or> hd (expText l) = CHR ''e'' \<or> hd (expText l) = CHR ''E''"
    by (auto simp: wellFormed_def expText_def split: option.splits)
  show ?thesis
  proof (cases "fraction l")
    case None
    with ne have "whole l \<noteq> []" by (simp add: fractionDigits_def)
    with None show ?thesis
      by (simp add: mantissaText_def fractionDigits_def mantissaLoop_digits [OF w]
          mantissaLoop_stop [OF stop] decimalValue_def)
  next
    case (Some fd)
    with f have f': "list_all isDigit fd" by (simp add: fractionDigits_def)
    from Some ne have ne': "whole l \<noteq> [] \<or> fd \<noteq> []" by (simp add: fractionDigits_def)
    from Some ne' show ?thesis
      by (simp add: mantissaText_def fractionDigits_def mantissaLoop_digits [OF w]
          mantissaLoop_digits [OF f'] mantissaLoop_stop [OF stop] decimalValue_def)
  qed
qed

lemma readExponent_decimal:
  assumes "wellFormed l"
  shows "readExponent False (expText l)
         = Some (case expPart l of
                   None \<Rightarrow> 0
                 | Some (m, s, ds) \<Rightarrow>
                     if s = ''-'' then - int (decimalValue ds) else int (decimalValue ds),
                 False, [])"
proof (cases "expPart l")
  case None
  then show ?thesis by (simp add: expText_def readExponent_def)
next
  case (Some p)
  obtain m s ds where p: "p = (m, s, ds)" by (cases p)
  from assms Some p have m: "m = CHR ''e'' \<or> m = CHR ''E''" and s: "isSign s"
    and ne: "ds \<noteq> []" and d: "list_all isDigit ds" and v: "decimalValue ds < 100000"
    by (simp_all add: wellFormed_def)
  from m have lm: "lower m = 101" by (auto simp: lower_marks)
  from ne obtain x xs where ds: "ds = x # xs" by (cases ds) auto
  with d have x: "isDigit x" by simp
  from isDigit_not_punct [OF x] have xn: "x \<noteq> CHR ''+''" "x \<noteq> CHR ''-''" by simp_all
  from v have v': "foldl (\<lambda>a c. 10 * a + (of_char c - 48)) (0 :: nat) ds < 100000"
    by (simp add: decimalValue_def)
  have loop: "exponentLoop (x # xs) 0 False = (decimalValue ds, False, [])"
    using exponentLoop_digits [OF d v', of False] by (simp only: ds decimalValue_def)
  from s consider "s = []" | "s = ''+''" | "s = ''-''" by (auto simp: isSign_def)
  then show ?thesis
  proof cases
    case 1
    with Some p show ?thesis
      by (simp add: expText_def readExponent_def lm ds xn x loop [unfolded ds] Let_def
          del: exponentLoop.simps)
  next
    case 2
    with Some p show ?thesis
      by (simp add: expText_def readExponent_def lm ds xn x loop [unfolded ds] Let_def
          del: exponentLoop.simps)
  next
    case 3
    with Some p show ?thesis
      by (simp add: expText_def readExponent_def lm ds xn x loop [unfolded ds] Let_def
          del: exponentLoop.simps)
  qed
qed


lemma decimal_chars:
  assumes "wellFormed l" and "c \<in> set (decimalText l)"
  shows "isDigit c \<or> c = CHR ''+'' \<or> c = CHR ''-'' \<or> c = CHR ''.'' \<or> c = CHR ''e''
         \<or> c = CHR ''E''"
  using assms
  by (auto simp: wellFormed_def decimalText_def mantissaText_def expText_def
      fractionDigits_def isSign_def list_all_iff split: option.splits)

lemma unsigned_chars:
  assumes "wellFormed l" and "c \<in> set (mantissaText l @ expText l)"
  shows "lower c \<noteq> 120"
proof -
  from assms(2) have "c \<in> set (decimalText l)" by (simp add: decimalText_def)
  from decimal_chars [OF assms(1) this] consider "isDigit c"
    | "c = CHR ''+'' \<or> c = CHR ''-'' \<or> c = CHR ''.'' \<or> c = CHR ''e'' \<or> c = CHR ''E''"
    by blast
  then show ?thesis
  proof cases
    case 1
    then have "lower c = of_char c" by (rule isDigit_lower)
    with 1 show ?thesis by (simp add: isDigit_def)
  next
    case 2
    then show ?thesis by (auto simp: lower_def)
  qed
qed

lemma unsigned_first:
  assumes "wellFormed l"
  shows "\<exists>c cs. mantissaText l @ expText l = c # cs \<and> (isDigit c \<or> c = CHR ''.'')"
proof -
  from assms have w: "list_all isDigit (whole l)"
    and ne: "whole l @ fractionDigits l \<noteq> []"
    by (simp_all add: wellFormed_def)
  show ?thesis
  proof (cases "whole l")
    case Nil
    with ne obtain fd where "fraction l = Some fd"
      by (cases "fraction l") (auto simp: fractionDigits_def)
    with Nil have "mantissaText l @ expText l = CHR ''.'' # fd @ expText l"
      by (simp add: mantissaText_def)
    then show ?thesis by blast
  next
    case (Cons c cs)
    with w have "isDigit c" by simp
    moreover from Cons have "mantissaText l @ expText l
        = c # cs @ (case fraction l of None \<Rightarrow> [] | Some f \<Rightarrow> CHR ''.'' # f) @ expText l"
      by (simp add: mantissaText_def)
    ultimately show ?thesis by blast
  qed
qed

text \<open>The literal \<open>readFloat\<close> reads from the text of a well-formed decimal.\<close>

lemma readFloat_decimal:
  assumes "wellFormed l"
  shows "readFloat (decimalText l)
         = Some \<lparr>negative = (dsign l = ''-''), hexadecimal = False,
                 digitsInt = decimalValue (whole l @ fractionDigits l),
                 fractionLen = length (fractionDigits l),
                 exponent = (case expPart l of
                               None \<Rightarrow> 0
                             | Some (m, s, ds) \<Rightarrow>
                                 if s = ''-'' then - int (decimalValue ds)
                                 else int (decimalValue ds)),
                 rest = []\<rparr>"
proof -
  let ?body = "mantissaText l @ expText l"
  from unsigned_first [OF assms]
  obtain c cs where body: "?body = c # cs" and c: "isDigit c \<or> c = CHR ''.''"
    by blast
  from c isDigit_not_punct [of c] have cn: "c \<noteq> CHR ''+''" "c \<noteq> CHR ''-''" by auto
  from unsigned_chars [OF assms] have hx: "\<forall>x \<in> set ?body. lower x \<noteq> 120" by blast
  note m = mantissa_decimal [OF assms]
  note e = readExponent_decimal [OF assms]
  have r: "readFloat (x # xs)
           = Some \<lparr>negative = (x = CHR ''-''), hexadecimal = False,
                   digitsInt = decimalValue (whole l @ fractionDigits l),
                   fractionLen = length (fractionDigits l),
                   exponent = (case expPart l of
                                 None \<Rightarrow> 0
                               | Some (m, s, ds) \<Rightarrow>
                                   if s = ''-'' then - int (decimalValue ds)
                                   else int (decimalValue ds)),
                   rest = []\<rparr>"
    if "?body = (if x = CHR ''+'' \<or> x = CHR ''-'' then xs else x # xs)" for x xs
    using readFloat_parts [OF that hx m _ _ e] by simp
  from assms have "isSign (dsign l)" by (simp add: wellFormed_def)
  then consider "dsign l = []" | "dsign l = ''+''" | "dsign l = ''-''"
    by (auto simp: isSign_def)
  then show ?thesis
  proof cases
    case 1
    then have t: "decimalText l = c # cs" by (simp add: decimalText_def body)
    have "?body = (if c = CHR ''+'' \<or> c = CHR ''-'' then cs else c # cs)"
      by (simp add: cn body)
    from r [OF this] show ?thesis by (simp add: t cn 1)
  next
    case 2
    then have t: "decimalText l = CHR ''+'' # ?body" by (simp add: decimalText_def)
    have "?body = (if CHR ''+'' = CHR ''+'' \<or> CHR ''+'' = CHR ''-'' then ?body else CHR ''+'' # ?body)"
      by simp
    from r [OF this] show ?thesis by (simp add: t 2)
  next
    case 3
    then have t: "decimalText l = CHR ''-'' # ?body" by (simp add: decimalText_def)
    have "?body = (if CHR ''-'' = CHR ''+'' \<or> CHR ''-'' = CHR ''-'' then ?body else CHR ''-'' # ?body)"
      by simp
    from r [OF this] show ?thesis by (simp add: t 3)
  qed
qed

lemma special_decimal:
  assumes "wellFormed l"
  shows "special (decimalText l) = None"
proof -
  let ?body = "mantissaText l @ expText l"
  from unsigned_first [OF assms]
  obtain c cs where body: "?body = c # cs" and c: "isDigit c \<or> c = CHR ''.''"
    by blast
  from c isDigit_not_punct [of c]
  have cn: "c \<noteq> CHR ''+''" "c \<noteq> CHR ''-''" "c \<noteq> CHR ''i''" "c \<noteq> CHR ''I''"
    "c \<noteq> CHR ''n''" "c \<noteq> CHR ''N''"
    by auto
  from c have "commonPrefixLenIgnoreCase (c # cs) ''infinity'' = 0"
    by (auto simp: isDigit_def Let_def)
  then have i: "infinityLen (c # cs) = None" by (simp add: infinityLen_def)
  from assms have "isSign (dsign l)" by (simp add: wellFormed_def)
  then consider "dsign l = []" | "dsign l = ''+''" | "dsign l = ''-''"
    by (auto simp: isSign_def)
  then show ?thesis
  proof cases
    case 1
    then have "decimalText l = c # cs" by (simp add: decimalText_def body)
    then show ?thesis by (simp add: special_def cn)
  next
    case 2
    then have "decimalText l = CHR ''+'' # c # cs" by (simp add: decimalText_def body)
    then show ?thesis by (simp add: special_def i)
  next
    case 3
    then have "decimalText l = CHR ''-'' # c # cs" by (simp add: decimalText_def body)
    then show ?thesis by (simp add: special_def i)
  qed
qed

text \<open>
  On the text of a well-formed decimal \<open>ParseFloat\<close> returns the \<open>float64\<close> nearest to
  the number the decimal denotes, or a range error when that is beyond the finite ones.
\<close>

lemma ParseFloat_decimal:
  assumes "wellFormed l"
  shows "ParseFloat (decimalText l)
         = (case decimalFloat64 l of
              None \<Rightarrow> Inl (rangeError (decimalText l))
            | Some f \<Rightarrow> Inr f)"
proof -
  let ?lit = "\<lparr>negative = (dsign l = ''-''), hexadecimal = False,
               digitsInt = decimalValue (whole l @ fractionDigits l),
               fractionLen = length (fractionDigits l),
               exponent = (case expPart l of
                             None \<Rightarrow> 0
                           | Some (m, s, ds) \<Rightarrow>
                               if s = ''-'' then - int (decimalValue ds)
                               else int (decimalValue ds)),
               rest = []\<rparr>"
  have f: "literalFraction ?lit = decimalFraction l"
    by (auto simp: literalFraction_def decimalFraction_def Let_def split: option.splits)
  show ?thesis
    unfolding ParseFloat_def special_decimal [OF assms] readFloat_decimal [OF assms] option.case
    by (simp add: f decimalFloat64_def split: prod.splits)
qed


text \<open>The text of a well-formed decimal is printable ASCII without a comma.\<close>

lemma decimalText_graphic:
  assumes "wellFormed l"
  shows "decimalText l \<noteq> []"
    and "c \<in> set (decimalText l) \<Longrightarrow> c \<noteq> CHR '','' \<and> 33 \<le> (of_char c :: nat) \<and> (of_char c :: nat) \<le> 126"
proof -
  from unsigned_first [OF assms]
  obtain x xs where "mantissaText l @ expText l = x # xs"
    by blast
  then show "decimalText l \<noteq> []" by (simp add: decimalText_def)
  assume "c \<in> set (decimalText l)"
  from decimal_chars [OF assms this]
  show "c \<noteq> CHR '','' \<and> 33 \<le> (of_char c :: nat) \<and> (of_char c :: nat) \<le> 126"
    by (auto simp: isDigit_def)
qed

lemma Split_TrimSpace_decimals:
  assumes "wellFormed a" and "wellFormed b" and "wellFormed c" and "wellFormed d"
    and "whitespace ws1" and "whitespace ws2"
  shows "Split (TrimSpace (ws1 @ Join [decimalText a, decimalText b, decimalText c,
                                       decimalText d] @ ws2))
         = [decimalText a, decimalText b, decimalText c, decimalText d]"
proof -
  let ?body = "Join [decimalText a, decimalText b, decimalText c, decimalText d]"
  note ga = decimalText_graphic [OF assms(1)] and gb = decimalText_graphic [OF assms(2)]
    and gc = decimalText_graphic [OF assms(3)] and gd = decimalText_graphic [OF assms(4)]
  have ne: "?body \<noteq> []" using ga(1) by simp
  have "hd ?body \<in> set (decimalText a)" using ga(1) by simp
  from ga(2) [OF this]
  have h: "33 \<le> (of_char (hd ?body) :: nat)" "(of_char (hd ?body) :: nat) \<le> 126"
    by simp_all
  have "last ?body \<in> set (decimalText d)" using gd(1) by simp
  from gd(2) [OF this]
  have l: "33 \<le> (of_char (last ?body) :: nat)" "(of_char (last ?body) :: nat) \<le> 126"
    by simp_all
  have t: "TrimSpace (ws1 @ ?body @ ws2) = ?body"
    by (rule TrimSpace_between [OF assms(5,6) ne h l])
  have "Split ?body = [decimalText a, decimalText b, decimalText c, decimalText d]"
    by (rule Split_Join4) (use ga(2) gb(2) gc(2) gd(2) in blast)+
  with t show ?thesis by simp
qed

section \<open>The record parser\<close>

lemma digit_char: "d < 10 \<Longrightarrow> (of_char (''0123456789'' ! d) :: nat) = 48 + d"
proof -
  assume "d < 10"
  then consider "d = 0" | "d = 1" | "d = 2" | "d = 3" | "d = 4" | "d = 5" | "d = 6"
    | "d = 7" | "d = 8" | "d = 9" by atomize_elim arith
  then show ?thesis by cases simp_all
qed

lemma decimalValue_snoc: "decimalValue (s @ [c]) = 10 * decimalValue s + (of_char c - 48)"
  by (simp add: decimalValue_def)

text \<open>The digits \<open>%d\<close> prints denote the number printed.\<close>

lemma itoa_value: "decimalValue (itoa n) = n"
proof (induction n rule: itoa.induct)
  case (1 n)
  show ?case
  proof (cases "n < 10")
    case True
    then show ?thesis by (subst itoa.simps) (simp add: decimalValue_def digit_char)
  next
    case False
    with 1 have "decimalValue (itoa (n div 10)) = n div 10" by simp
    with False show ?thesis
      by (subst itoa.simps) (simp add: decimalValue_snoc digit_char)
  qed
qed

text \<open>Every error of \<open>ParseFloat\<close> is a syntax or a range error about its argument.\<close>

lemma ParseFloat_error: "ParseFloat s = Inl e \<Longrightarrow> e = syntaxError s \<or> e = rangeError s"
  by (auto simp: ParseFloat_def split: option.splits if_splits prod.splits)

lemma ParseFloat_error_quotes: "ParseFloat s = Inl e \<Longrightarrow> Quoted s \<in> set e"
  by (auto dest!: ParseFloat_error simp: syntaxError_def rangeError_def)

text \<open>Four fields that \<open>ParseFloat\<close> accepts give the record of their values, in order.\<close>

lemma parseQuaternion_fields:
  assumes "Split (TrimSpace line) = [a, b, c, d]"
    and "ParseFloat a = Inr x" and "ParseFloat b = Inr y"
    and "ParseFloat c = Inr z" and "ParseFloat d = Inr w"
  shows "parseQuaternion line = Inr \<lparr>I = x, J = y, K = z, Real = w\<rparr>"
  using assms by (simp add: parseQuaternion_def)

text \<open>
  Claim C2, as stated, fails: the line \<open>1e309,0,0,1\<close> has four fields, each a base-10
  number in standard or exponential notation, and \<open>parseQuaternion\<close> rejects it, because
  the value of \<open>1e309\<close> is beyond the largest \<open>float64\<close> and \<open>ParseFloat\<close> reports a range
  error.
\<close>

theorem parseQuaternion_out_of_range:
  "Split (TrimSpace ''1e309,0,0,1'') = [''1e309'', ''0'', ''0'', ''1'']
   \<and> wellFormed \<lparr>dsign = [], whole = ''1'', fraction = None,
                  expPart = Some (CHR ''e'', [], ''309'')\<rparr>
   \<and> decimalText \<lparr>dsign = [], whole = ''1'', fraction = None,
                   expPart = Some (CHR ''e'', [], ''309'')\<rparr> = ''1e309''
   \<and> parseQuaternion ''1e309,0,0,1''
       = Inl [Text ''invalid i value: '', Text ''strconv.ParseFloat: parsing '',
              Quoted ''1e309'', Text '': value out of range'']"
proof -
  have s: "Split (TrimSpace ''1e309,0,0,1'') = [''1e309'', ''0'', ''0'', ''1'']"
    by (simp add: strings_eval)
  have w: "wellFormed \<lparr>dsign = [], whole = ''1'', fraction = None,
                       expPart = Some (CHR ''e'', [], ''309'')\<rparr>"
    by (simp add: wellFormed_def isSign_def fractionDigits_def isDigit_def decimalValue_def)
  have t: "decimalText \<lparr>dsign = [], whole = ''1'', fraction = None,
                        expPart = Some (CHR ''e'', [], ''309'')\<rparr> = ''1e309''"
    by (simp add: decimalText_def mantissaText_def expText_def)
  have "parseQuaternion ''1e309,0,0,1'' = Inl (Text ''invalid i value: '' # rangeError ''1e309'')"
    by (simp add: parseQuaternion_def s ParseFloat_out_of_range)
  with s w t show ?thesis by (simp add: rangeError_def)
qed


text \<open>
  Claim C2, amended. Let \<open>a\<close>, \<open>b\<close>, \<open>c\<close>, \<open>d\<close> be well-formed decimals (signed or not,
  with or without a point, with or without a power of ten) whose nearest \<open>float64\<close>
  values \<open>i\<close>, \<open>j\<close>, \<open>k\<close>, \<open>real\<close> are finite. Every line whose trimmed text splits into
  the texts of \<open>a\<close>, \<open>b\<close>, \<open>c\<close>, \<open>d\<close> parses to the record of \<open>i\<close>, \<open>j\<close>, \<open>k\<close>, \<open>real\<close>; and
  the line made of these texts joined by commas, with any white space before and after,
  is such a line.
\<close>

theorem parseQuaternion_decimal:
  assumes "wellFormed a" and "wellFormed b" and "wellFormed c" and "wellFormed d"
    and "decimalFloat64 a = Some i" and "decimalFloat64 b = Some j"
    and "decimalFloat64 c = Some k" and "decimalFloat64 d = Some real"
    and "whitespace ws1" and "whitespace ws2"
  shows "(Split (TrimSpace line) = [decimalText a, decimalText b, decimalText c, decimalText d]
          \<longrightarrow> parseQuaternion line = Inr \<lparr>I = i, J = j, K = k, Real = real\<rparr>)
       \<and> parseQuaternion (ws1 @ Join [decimalText a, decimalText b, decimalText c,
                                      decimalText d] @ ws2)
         = Inr \<lparr>I = i, J = j, K = k, Real = real\<rparr>"
proof -
  have p: "ParseFloat (decimalText a) = Inr i" "ParseFloat (decimalText b) = Inr j"
    "ParseFloat (decimalText c) = Inr k" "ParseFloat (decimalText d) = Inr real"
    by (simp_all add: ParseFloat_decimal assms)
  have f: "parseQuaternion s = Inr \<lparr>I = i, J = j, K = k, Real = real\<rparr>"
    if "Split (TrimSpace s) = [decimalText a, decimalText b, decimalText c, decimalText d]"
    for s
    by (rule parseQuaternion_fields [OF that p])
  from f [of line] f [OF Split_TrimSpace_decimals [OF assms(1-4) assms(9,10)]]
  show ?thesis by blast
qed

text \<open>
  The line \<open>0.1,-2e3,+.5E-1,1.\<close> between a space and the runes U+00A0 and carriage
  return yields the \<open>float64\<close> values nearest to 0.1, -2000, 0.05 and 1; the line
  \<open>0.1,0.2,0.3,0.9\<close> yields those nearest to 0.1, 0.2, 0.3 and 0.9.
\<close>

theorem parseQuaternion_decimal_witness:
  "decimalText \<lparr>dsign = [], whole = ''0'', fraction = Some ''1'', expPart = None\<rparr> = ''0.1''
   \<and> decimalText \<lparr>dsign = ''-'', whole = ''2'', fraction = None,
                   expPart = Some (CHR ''e'', [], ''3'')\<rparr> = ''-2e3''
   \<and> decimalText \<lparr>dsign = ''+'', whole = [], fraction = Some ''5'',
                   expPart = Some (CHR ''E'', ''-'', ''1'')\<rparr> = ''+.5E-1''
   \<and> decimalText \<lparr>dsign = [], whole = ''1'', fraction = Some [], expPart = None\<rparr> = ''1.''
   \<and> parseQuaternion ('' 0.1,-2e3,+.5E-1,1.'' @ [CHR 0xC2, CHR 0xA0, CHR 0x0D])
       = Inr \<lparr>I = 0x3FB999999999999A, J = 0xC09F400000000000,
              K = 0x3FA999999999999A, Real = 0x3FF0000000000000\<rparr>
   \<and> parseQuaternion ''0.1,0.2,0.3,0.9''
       = Inr \<lparr>I = 0x3FB999999999999A, J = 0x3FC999999999999A,
              K = 0x3FD3333333333333, Real = 0x3FECCCCCCCCCCCCD\<rparr>"
proof -
  let ?a = "\<lparr>dsign = [], whole = ''0'', fraction = Some ''1'', expPart = None\<rparr>"
  let ?b = "\<lparr>dsign = ''-'', whole = ''2'', fraction = None,
             expPart = Some (CHR ''e'', [], ''3'')\<rparr>"
  let ?c = "\<lparr>dsign = ''+'', whole = [], fraction = Some ''5'',
             expPart = Some (CHR ''E'', ''-'', ''1'')\<rparr>"
  let ?d = "\<lparr>dsign = [], whole = ''1'', fraction = Some [], expPart = None\<rparr>"
  let ?a2 = "\<lparr>dsign = [], whole = ''0'', fraction = Some ''2'', expPart = None\<rparr>"
  let ?a3 = "\<lparr>dsign = [], whole = ''0'', fraction = Some ''3'', expPart = None\<rparr>"
  let ?a9 = "\<lparr>dsign = [], whole = ''0'', fraction = Some ''9'', expPart = None\<rparr>"
  have wf: "wellFormed ?a" "wellFormed ?b" "wellFormed ?c" "wellFormed ?d"
    "wellFormed ?a2" "wellFormed ?a3" "wellFormed ?a9"
    by (simp_all add: wellFormed_def isSign_def fractionDigits_def isDigit_def decimalValue_def)
  have t: "decimalText ?a = ''0.1''" "decimalText ?b = ''-2e3''" "decimalText ?c = ''+.5E-1''"
    "decimalText ?d = ''1.''" "decimalText ?a2 = ''0.2''" "decimalText ?a3 = ''0.3''"
    "decimalText ?a9 = ''0.9''"
    by (simp_all add: decimalText_def mantissaText_def expText_def)
  have q: "decimalFraction ?a = (Suc 0, 10)" "decimalFraction ?b = (2000, Suc 0)"
    "decimalFraction ?c = (5, 100)" "decimalFraction ?d = (Suc 0, Suc 0)"
    "decimalFraction ?a2 = (2, 10)" "decimalFraction ?a3 = (3, 10)"
    "decimalFraction ?a9 = (9, 10)"
    by (simp_all add: decimalFraction_def fractionDigits_def decimalValue_def)
  have f: "float64bits False (Suc 0) 10 = Some 0x3FB999999999999A"
    "float64bits True 2000 (Suc 0) = Some 0xC09F400000000000"
    "float64bits False 5 100 = Some 0x3FA999999999999A"
    "float64bits False (Suc 0) (Suc 0) = Some 0x3FF0000000000000"
    "float64bits False 2 10 = Some 0x3FC999999999999A"
    "float64bits False 3 10 = Some 0x3FD3333333333333"
    "float64bits False 9 10 = Some 0x3FECCCCCCCCCCCCD"
    by (simp_all add: round_eval)
  have v: "decimalFloat64 ?a = Some 0x3FB999999999999A"
    "decimalFloat64 ?b = Some 0xC09F400000000000"
    "decimalFloat64 ?c = Some 0x3FA999999999999A"
    "decimalFloat64 ?d = Some 0x3FF0000000000000"
    "decimalFloat64 ?a2 = Some 0x3FC999999999999A"
    "decimalFloat64 ?a3 = Some 0x3FD3333333333333"
    "decimalFloat64 ?a9 = Some 0x3FECCCCCCCCCCCCD"
    by (simp_all add: decimalFloat64_def q f)
  have r: "map of_char '' '' \<in> set spaceRunes"
    "map of_char [CHR 0xC2, CHR 0xA0] \<in> set spaceRunes"
    "map of_char [CHR 0x0D] \<in> set spaceRunes"
    by (simp_all add: spaceRunes_def)
  have e: "whitespace []" by (simp add: whitespace_def spaces.none)
  from spaces.rune [OF r(1) spaces.none] have w1: "whitespace '' ''"
    by (simp add: whitespace_def)
  from spaces.rune [OF r(2) spaces.rune [OF r(3) spaces.none]]
  have w2: "whitespace [CHR 0xC2, CHR 0xA0, CHR 0x0D]"
    by (simp add: whitespace_def)
  from parseQuaternion_decimal [OF wf(1,2,3,4) v(1,2,3,4) w1 w2, of "[]"]
  have one: "parseQuaternion ('' 0.1,-2e3,+.5E-1,1.'' @ [CHR 0xC2, CHR 0xA0, CHR 0x0D])
       = Inr \<lparr>I = 0x3FB999999999999A, J = 0xC09F400000000000,
              K = 0x3FA999999999999A, Real = 0x3FF0000000000000\<rparr>"
    by (simp add: t)
  have s: "Split (TrimSpace ''0.1,0.2,0.3,0.9'') = [''0.1'', ''0.2'', ''0.3'', ''0.9'']"
    by (simp add: strings_eval)
  from parseQuaternion_decimal [OF wf(1,5,6,7) v(1,5,6,7) e e, of "''0.1,0.2,0.3,0.9''"]
  have two: "parseQuaternion ''0.1,0.2,0.3,0.9''
       = Inr \<lparr>I = 0x3FB999999999999A, J = 0x3FC999999999999A,
              K = 0x3FD3333333333333, Real = 0x3FECCCCCCCCCCCCD\<rparr>"
    by (simp add: t s)
  from t(1,2,3,4) one two show ?thesis by simp
qed

text \<open>
  Claim C3. A line whose trimmed text splits into \<open>n\<close> fields with \<open>n\<close> other than 4 is
  rejected with the message \<open>expected 4 values, got n\<close>, \<open>n\<close> in decimal.
\<close>

theorem parseQuaternion_wrong_count:
  assumes "length (Split (TrimSpace line)) = n" and "n \<noteq> 4"
  shows "parseQuaternion line = Inl [Text (''expected 4 values, got '' @ itoa n)]
         \<and> decimalValue (itoa n) = n"
  using assms by (simp add: parseQuaternion_def itoa_value)

theorem parseQuaternion_wrong_count_witness:
  "length (Split (TrimSpace ''0,0,0'')) = 3 \<and> (3 :: nat) \<noteq> 4
   \<and> parseQuaternion ''0,0,0'' = Inl [Text ''expected 4 values, got 3'']"
proof -
  have l: "length (Split (TrimSpace ''0,0,0'')) = 3" by (simp add: strings_eval)
  have n: "(3 :: nat) \<noteq> 4" by simp
  show ?thesis using parseQuaternion_wrong_count [OF l n] l by (simp add: itoa.simps)
qed

lemma first_invalid_0:
  assumes "length (Split (TrimSpace line)) = 4"
    and "ParseFloat (Split (TrimSpace line) ! 0) = Inl e"
  shows "parseQuaternion line = Inl (Text ''invalid i value: '' # e)"
  using assms by (simp add: parseQuaternion_def)

lemma first_invalid_1:
  assumes "length (Split (TrimSpace line)) = 4"
    and "ParseFloat (Split (TrimSpace line) ! 0) = Inr x"
    and "ParseFloat (Split (TrimSpace line) ! 1) = Inl e"
  shows "parseQuaternion line = Inl (Text ''invalid j value: '' # e)"
  using assms by (simp add: parseQuaternion_def)

lemma first_invalid_2:
  assumes "length (Split (TrimSpace line)) = 4"
    and "ParseFloat (Split (TrimSpace line) ! 0) = Inr x"
    and "ParseFloat (Split (TrimSpace line) ! 1) = Inr y"
    and "ParseFloat (Split (TrimSpace line) ! 2) = Inl e"
  shows "parseQuaternion line = Inl (Text ''invalid k value: '' # e)"
  using assms by (simp add: parseQuaternion_def)

lemma first_invalid_3:
  assumes "length (Split (TrimSpace line)) = 4"
    and "ParseFloat (Split (TrimSpace line) ! 0) = Inr x"
    and "ParseFloat (Split (TrimSpace line) ! 1) = Inr y"
    and "ParseFloat (Split (TrimSpace line) ! 2) = Inr z"
    and "ParseFloat (Split (TrimSpace line) ! 3) = Inl e"
  shows "parseQuaternion line = Inl (Text ''invalid real value: '' # e)"
  using assms by (simp add: parseQuaternion_def)

text \<open>
  Claim C4, as stated, fails: in the line \<open>abc,def,0,1\<close> the second field (role j) does
  not parse, yet the error cites field i and the text \<open>abc\<close>, not field j and \<open>def\<close>:
  the fields are parsed in order and the first failure returns.
\<close>

theorem parseQuaternion_second_field_not_cited:
  "length (Split (TrimSpace ''abc,def,0,1'')) = 4
   \<and> Split (TrimSpace ''abc,def,0,1'') ! 1 = ''def''
   \<and> ParseFloat ''def'' = Inl (syntaxError ''def'')
   \<and> parseQuaternion ''abc,def,0,1'' = Inl (Text ''invalid i value: '' # syntaxError ''abc'')
   \<and> \<not> cites (Text ''invalid i value: '' # syntaxError ''abc'') 1 ''def''"
proof -
  have s: "Split (TrimSpace ''abc,def,0,1'') = [''abc'', ''def'', ''0'', ''1'']"
    by (simp add: strings_eval)
  have p: "parseQuaternion ''abc,def,0,1'' = Inl (Text ''invalid i value: '' # syntaxError ''abc'')"
    by (rule first_invalid_0) (simp_all add: s ParseFloat_letters)
  show ?thesis by (simp add: s p ParseFloat_letters cites_def roleName_def)
qed

text \<open>
  Claim C4, amended. In a four-field line, if field \<open>k\<close> is the first field that
  \<open>ParseFloat\<close> rejects, the parse fails with the message \<open>invalid r value: \<close> followed by
  the error of \<open>ParseFloat\<close>, where \<open>r\<close> is the role of field \<open>k\<close>; that error quotes the
  text of the field.
\<close>

theorem parseQuaternion_first_invalid:
  assumes len: "length (Split (TrimSpace line)) = 4"
    and k: "k < 4"
    and bad: "ParseFloat (Split (TrimSpace line) ! k) = Inl e"
    and good: "\<forall>j<k. \<exists>v. ParseFloat (Split (TrimSpace line) ! j) = Inr v"
  shows "parseQuaternion line = Inl (Text (''invalid '' @ roleName k @ '' value: '') # e)
         \<and> cites (Text (''invalid '' @ roleName k @ '' value: '') # e) k
              (Split (TrimSpace line) ! k)"
proof -
  from k consider "k = 0" | "k = 1" | "k = 2" | "k = 3" by atomize_elim arith
  then have "parseQuaternion line = Inl (Text (''invalid '' @ roleName k @ '' value: '') # e)"
  proof cases
    case 1
    with len bad show ?thesis by (simp add: first_invalid_0 roleName_def)
  next
    case 2
    with good obtain x where "ParseFloat (Split (TrimSpace line) ! 0) = Inr x" by auto
    with 2 len bad show ?thesis by (simp add: first_invalid_1 roleName_def)
  next
    case 3
    then have "0 < k" "1 < k" by simp_all
    with good obtain x y where "ParseFloat (Split (TrimSpace line) ! 0) = Inr x"
      and "ParseFloat (Split (TrimSpace line) ! 1) = Inr y"
      by metis
    with 3 len bad show ?thesis by (simp add: first_invalid_2 roleName_def)
  next
    case 4
    then have "0 < k" "1 < k" "2 < k" by simp_all
    with good obtain x y z where "ParseFloat (Split (TrimSpace line) ! 0) = Inr x"
      and "ParseFloat (Split (TrimSpace line) ! 1) = Inr y"
      and "ParseFloat (Split (TrimSpace line) ! 2) = Inr z"
      by metis
    with 4 len bad show ?thesis by (simp add: first_invalid_3 roleName_def)
  qed
  moreover have "Quoted (Split (TrimSpace line) ! k) \<in> set e"
    using bad by (rule ParseFloat_error_quotes)
  ultimately show ?thesis by (simp add: cites_def)
qed

text \<open>The line \<open>abc,0,0,1\<close> fails citing field i and the text \<open>abc\<close>.\<close>

theorem parseQuaternion_first_invalid_witness:
  "length (Split (TrimSpace ''abc,0,0,1'')) = 4 \<and> (0 :: nat) < 4
   \<and> ParseFloat (Split (TrimSpace ''abc,0,0,1'') ! 0) = Inl (syntaxError ''abc'')
   \<and> parseQuaternion ''abc,0,0,1'' =
       Inl [Text ''invalid i value: '', Text ''strconv.ParseFloat: parsing '', Quoted ''abc'',
            Text '': invalid syntax'']
   \<and> cites [Text ''invalid i value: '', Text ''strconv.ParseFloat: parsing '', Quoted ''abc'',
            Text '': invalid syntax''] 0 ''abc''"
proof -
  have s: "Split (TrimSpace ''abc,0,0,1'') = [''abc'', ''0'', ''0'', ''1'']"
    by (simp add: strings_eval)
  have len: "length (Split (TrimSpace ''abc,0,0,1'')) = 4" by (simp add: s)
  have k: "(0 :: nat) < 4" by simp
  have bad: "ParseFloat (Split (TrimSpace ''abc,0,0,1'') ! 0) = Inl (syntaxError ''abc'')"
    by (simp add: s ParseFloat_letters)
  have good: "\<forall>j<0 :: nat. \<exists>v. ParseFloat (Split (TrimSpace ''abc,0,0,1'') ! j) = Inr v"
    by simp
  show ?thesis
    using parseQuaternion_first_invalid [OF len k bad good] len bad
    by (simp add: s roleName_def syntaxError_def)
qed

section \<open>The broadcast hub\<close>

lemmas hub_defs = WriteMessage_def Close_def logPrint_def

lemma Marshal_zero: "Marshal zeroQuaternion = Inr zeroJSON"
  by (simp add: Marshal_def floatEncoder_def zeroQuaternion_def zeroJSON_def finite_0)

lemma Marshal_identity: "Marshal identityQuaternion = Inr identityJSON"
  by (simp add: Marshal_def floatEncoder_def identityQuaternion_def identityJSON_def
      finite_0 finite_1)

lemma Marshal_NaN: "Marshal nanQuaternion = Inl [Text ''json: unsupported value: NaN'']"
  by (simp add: Marshal_def floatEncoder_def unsupportedValue_def nanQuaternion_def IsNaN_NaN)

lemma Marshal_Inf: "Marshal infQuaternion = Inl [Text ''json: unsupported value: +Inf'']"
  by (simp add: Marshal_def floatEncoder_def unsupportedValue_def infQuaternion_def IsInf_Inf64)
    (simp add: IsNaN_def Inf64_def expBits_def fracBits_def signBit_def)

text \<open>A successful \<open>Marshal\<close> returns the object with the members i, j, k and real.\<close>

lemma Marshal_Inr:
  "Marshal q = Inr d \<Longrightarrow>
   d = JObject [(''i'', JNumber (I q)), (''j'', JNumber (J q)), (''k'', JNumber (K q)),
                (''real'', JNumber (Real q))]"
  by (auto simp: Marshal_def floatEncoder_def split: sum.splits if_splits)

lemma rangeClients_currentQuat:
  "currentQuat (rangeClients up data keys st) = currentQuat st"
  by (induction keys arbitrary: st) (simp_all add: hub_defs)

lemma rangeClients_clients:
  "clients (rangeClients up data keys st) c =
     (if c \<in> set keys \<and> (c \<in> closed st \<or> \<not> up c) then None else clients st c)"
  by (induction keys arbitrary: st) (auto simp: hub_defs domIff)

lemma rangeClients_closed_mono:
  "c \<in> closed st \<Longrightarrow> c \<in> closed (rangeClients up data keys st)"
  by (induction keys arbitrary: st) (simp_all add: hub_defs)

lemma rangeClients_closed:
  "c \<in> set keys \<Longrightarrow> c \<in> dom (clients st) \<Longrightarrow> c \<in> closed st \<or> \<not> up c \<Longrightarrow>
   c \<in> closed (rangeClients up data keys st)"
proof (induction keys arbitrary: st)
  case Nil
  then show ?case by simp
next
  case (Cons k keys)
  show ?case
  proof (cases "c \<in> closed st")
    case True
    then show ?thesis by (rule rangeClients_closed_mono)
  next
    case False
    with Cons.prems have nup: "\<not> up c" by simp
    show ?thesis
    proof (cases "k = c")
      case True
      with Cons.prems nup show ?thesis
        by (simp add: hub_defs rangeClients_closed_mono)
    next
      case False
      with Cons.prems have "c \<in> set keys" by simp
      with Cons.IH Cons.prems(2) nup False show ?thesis
        by (auto simp: hub_defs domIff)
    qed
  qed
qed

lemma rangeClients_sent_closed:
  "c \<in> closed st \<Longrightarrow> sent (rangeClients up data keys st) c = sent st c"
  by (induction keys arbitrary: st) (auto simp: hub_defs)

lemma rangeClients_sent_down:
  "\<not> up c \<Longrightarrow> sent (rangeClients up data keys st) c = sent st c"
  by (induction keys arbitrary: st) (auto simp: hub_defs)

lemma rangeClients_sent_absent:
  "c \<notin> dom (clients st) \<Longrightarrow> sent (rangeClients up data keys st) c = sent st c"
  by (induction keys arbitrary: st) (auto simp: hub_defs domIff)

lemma rangeClients_sent_other:
  "c \<notin> set keys \<Longrightarrow> sent (rangeClients up data keys st) c = sent st c"
  by (induction keys arbitrary: st) (auto simp: hub_defs)

text \<open>
  When every key is produced once, a connection gets the data exactly once if it is in
  the map and its write succeeds, and nothing otherwise.
\<close>

lemma rangeClients_sent:
  "distinct keys \<Longrightarrow>
   sent (rangeClients up data keys st) c =
     (if c \<in> set keys \<and> c \<in> dom (clients st) \<and> c \<notin> closed st \<and> up c
      then sent st c @ [data] else sent st c)"
proof (induction keys arbitrary: st)
  case Nil
  then show ?case by simp
next
  case (Cons k keys)
  then have d: "distinct keys" and nk: "k \<notin> set keys" by simp_all
  note IH = Cons.IH [OF d]
  show ?case
  proof (cases "k \<in> dom (clients st)")
    case False
    then show ?thesis using IH [of st] by (auto simp: domIff)
  next
    case True
    show ?thesis
    proof (cases "k \<in> closed st \<or> \<not> up k")
      case True
      with \<open>k \<in> dom (clients st)\<close> show ?thesis
        using IH [of "st\<lparr>logged := logged st @ [LogWriteError k],
                         closed := insert k (closed st),
                         clients := (clients st)(k := None)\<rparr>"] nk
        by (auto simp: hub_defs domIff)
    next
      case False
      with \<open>k \<in> dom (clients st)\<close> show ?thesis
        using IH [of "st\<lparr>sent := (sent st)(k := sent st k @ [data])\<rparr>"] nk
        by (auto simp: hub_defs domIff rangeClients_sent_other)
    qed
  qed
qed

lemma broadcast_currentQuat:
  "currentQuat (broadcastQuaternion env quat st) = currentQuat st"
  by (simp add: broadcastQuaternion_def rangeClients_currentQuat logPrint_def split: sum.splits)

lemma broadcast_closed_mono:
  "c \<in> closed st \<Longrightarrow> c \<in> closed (broadcastQuaternion env quat st)"
  by (simp add: broadcastQuaternion_def rangeClients_closed_mono logPrint_def split: sum.splits)

lemma broadcast_sent_closed:
  "c \<in> closed st \<Longrightarrow> sent (broadcastQuaternion env quat st) c = sent st c"
  by (simp add: broadcastQuaternion_def rangeClients_sent_closed logPrint_def split: sum.splits)

lemma broadcast_absent:
  "c \<notin> dom (clients st) \<Longrightarrow> c \<notin> dom (clients (broadcastQuaternion env quat st))"
  by (auto simp: broadcastQuaternion_def rangeClients_clients logPrint_def domIff
      split: sum.splits if_splits)

text \<open>What a failed \<open>Marshal\<close> leaves of a broadcast: a log line.\<close>

lemma broadcast_unsupported:
  "Marshal quat = Inl err \<Longrightarrow>
   broadcastQuaternion env quat st = st\<lparr>logged := logged st @ [LogMarshalError err]\<rparr>"
  by (simp add: broadcastQuaternion_def logPrint_def)

subsection \<open>Evicted connections\<close>

text \<open>A connection the program has closed and dropped from the map stays so.\<close>

lemma processLine_evicted:
  assumes "evicted c st"
  shows "evicted c (processLine env line st) \<and> sent (processLine env line st) c = sent st c"
proof (cases "parseQuaternion line")
  case (Inl err)
  with assms show ?thesis by (simp add: processLine_def evicted_def logPrint_def)
next
  case (Inr q)
  let ?st = "st\<lparr>currentQuat := q\<rparr>"
  from assms have "c \<in> closed ?st" "c \<notin> dom (clients ?st)" by (simp_all add: evicted_def)
  then show ?thesis
    using broadcast_closed_mono [of c ?st env q] broadcast_sent_closed [of c ?st env q]
      broadcast_absent [of c ?st env q] Inr
    by (simp add: processLine_def evicted_def)
qed

lemma handleWebSocket_evicted:
  assumes "evicted c st" and "\<forall>c'. upgraded = Some c' \<longrightarrow> fresh c' st"
  shows "evicted c (handleWebSocket upgraded up st)
         \<and> sent (handleWebSocket upgraded up st) c = sent st c"
  using assms
  by (cases upgraded) (auto simp: handleWebSocket_def evicted_def fresh_def hub_defs Let_def)

lemma handleWebSocketExit_evicted:
  assumes "evicted c st"
  shows "evicted c (handleWebSocketExit c' st) \<and> sent (handleWebSocketExit c' st) c = sent st c"
  using assms by (auto simp: handleWebSocketExit_def evicted_def hub_defs Let_def)

lemma listenStep_evicted:
  assumes "evicted c st" and "listenStep ev (ph, st) = Some (ph', st')"
  shows "evicted c st' \<and> sent st' c = sent st c"
proof (cases ev)
  case OpenFails
  with assms show ?thesis by (cases ph) (auto simp: evicted_def logPrint_def)
next
  case OpenSucceeds
  with assms show ?thesis by (cases ph) (auto simp: evicted_def logPrint_def)
next
  case (ScanLine line env)
  with assms show ?thesis by (cases ph) (auto simp: processLine_evicted)
next
  case (ScanEnds err)
  with assms show ?thesis by (cases ph; cases err) (auto simp: evicted_def logPrint_def)
qed

lemma step_evicted:
  assumes "evicted c st" and "step ev (ph, st) = Some (ph', st')"
  shows "evicted c st' \<and> sent st' c = sent st c"
proof (cases ev)
  case (Serial sev)
  with assms show ?thesis using listenStep_evicted [of c st sev ph ph' st'] by simp
next
  case (WsConnect upgraded up)
  with assms show ?thesis
    using handleWebSocket_evicted [of c st upgraded up]
    by (auto split: option.splits if_splits)
next
  case (WsExit c')
  with assms show ?thesis
    using handleWebSocketExit_evicted [of c st c'] by (auto split: if_splits)
qed

lemma run_evicted:
  "evicted c st \<Longrightarrow> run evs (ph, st) = Some (ph', st') \<Longrightarrow>
   evicted c st' \<and> sent st' c = sent st c"
proof (induction evs arbitrary: ph st)
  case Nil
  then show ?case by simp
next
  case (Cons ev evs)
  from Cons.prems(2) obtain ph1 st1 where s: "step ev (ph, st) = Some (ph1, st1)"
    and r: "run evs (ph1, st1) = Some (ph', st')"
    by (auto split: option.splits)
  from step_evicted [OF Cons.prems(1) s] have e: "evicted c st1" and m: "sent st1 c = sent st c"
    by simp_all
  from Cons.IH [OF e r] m show ?case by simp
qed

subsection \<open>Sample states\<close>

lemma oneClient_eval:
  "clients oneClient = [1 \<mapsto> True]" "closed oneClient = {}"
  "sent oneClient = (\<lambda>_. [])(1 := [Some zeroJSON])" "currentQuat oneClient = zeroQuaternion"
  by (simp_all add: oneClient_def handleWebSocket_def init_def allUp_def hub_defs Let_def
      Marshal_zero)

lemma twoClients_eval:
  "clients twoClients = [1 \<mapsto> True, 2 \<mapsto> True]" "closed twoClients = {}"
  "sent twoClients = (\<lambda>_. [])(1 := [Some zeroJSON], 2 := [Some zeroJSON])"
  "currentQuat twoClients = zeroQuaternion"
  by (simp_all add: twoClients_def handleWebSocket_def allUp_def hub_defs Let_def
      Marshal_zero oneClient_eval)

lemma parse_identity: "parseQuaternion ''0,0,0,1'' = Inr identityQuaternion"
proof -
  have s: "Split (TrimSpace ''0,0,0,1'') = [''0'', ''0'', ''0'', ''1'']"
    by (simp add: strings_eval)
  show ?thesis
    by (simp add: parseQuaternion_def s ParseFloat_0 ParseFloat_1 identityQuaternion_def)
qed

lemma parse_three: "parseQuaternion ''0,0,0'' = Inl [Text ''expected 4 values, got 3'']"
proof -
  have s: "Split (TrimSpace ''0,0,0'') = [''0'', ''0'', ''0'']"
    by (simp add: strings_eval)
  show ?thesis by (simp add: parseQuaternion_def s itoa.simps)
qed

lemma parse_NaN: "parseQuaternion ''NaN,0,0,1'' = Inr nanQuaternion"
proof -
  have s: "Split (TrimSpace ''NaN,0,0,1'') = [''NaN'', ''0'', ''0'', ''1'']"
    by (simp add: strings_eval)
  show ?thesis
    by (simp add: parseQuaternion_def s ParseFloat_0 ParseFloat_1 ParseFloat_NaN
        nanQuaternion_def)
qed

lemma parse_Inf: "parseQuaternion ''Inf,0,0,1'' = Inr infQuaternion"
proof -
  have s: "Split (TrimSpace ''Inf,0,0,1'') = [''Inf'', ''0'', ''0'', ''1'']"
    by (simp add: strings_eval)
  show ?thesis
    by (simp add: parseQuaternion_def s ParseFloat_0 ParseFloat_1 ParseFloat_Inf
        infQuaternion_def)
qed

subsection \<open>Eviction\<close>

text \<open>
  Claim C5. When \<open>broadcastQuaternion\<close> attempts a delivery to a registered subscriber
  \<open>S\<close> and the write fails, \<open>S\<close> is out of \<open>clients\<close> when the call returns, it has
  received nothing from this call, and whatever the process does afterwards \<open>S\<close> stays
  out and receives nothing more. A subscriber that a broadcast removes is one whose
  delivery was attempted and failed.
\<close>

theorem eviction_on_failure:
  "(Marshal quat = Inr data \<and> S \<in> dom (clients st) \<and> S \<in> set (iteration env)
      \<and> (S \<in> closed st \<or> \<not> writable env S)
    \<longrightarrow> S \<notin> dom (clients (broadcastQuaternion env quat st))
        \<and> sent (broadcastQuaternion env quat st) S = sent st S
        \<and> (\<forall>evs ph ph' st'.
              run evs (ph, broadcastQuaternion env quat st) = Some (ph', st')
              \<longrightarrow> S \<notin> dom (clients st') \<and> sent st' S = sent st S))
   \<and> (\<forall>c. c \<in> dom (clients st) \<and> c \<notin> dom (clients (broadcastQuaternion env quat st))
          \<longrightarrow> c \<in> set (iteration env) \<and> (c \<in> closed st \<or> \<not> writable env c))"
proof (intro conjI impI allI)
  assume a: "Marshal quat = Inr data \<and> S \<in> dom (clients st) \<and> S \<in> set (iteration env)
      \<and> (S \<in> closed st \<or> \<not> writable env S)"
  let ?st = "broadcastQuaternion env quat st"
  have b: "?st = rangeClients (writable env) (Some data) (iteration env) st"
    using a by (simp add: broadcastQuaternion_def)
  show gone: "S \<notin> dom (clients ?st)"
    using a by (simp add: b rangeClients_clients domIff)
  have cl: "S \<in> closed ?st"
    using a by (simp add: b rangeClients_closed)
  show same: "sent ?st S = sent st S"
    using a by (auto simp: b rangeClients_sent_closed rangeClients_sent_down)
  fix evs ph ph' st'
  assume r: "run evs (ph, ?st) = Some (ph', st')"
  have "evicted S ?st" using gone cl by (simp add: evicted_def)
  from run_evicted [OF this r] same
  show "S \<notin> dom (clients st')" and "sent st' S = sent st S"
    by (simp_all add: evicted_def)
next
  fix c
  assume c: "c \<in> dom (clients st) \<and> c \<notin> dom (clients (broadcastQuaternion env quat st))"
  then have "c \<in> set (iteration env) \<and> (c \<in> closed st \<or> \<not> writable env c)"
    by (auto simp: broadcastQuaternion_def rangeClients_clients logPrint_def domIff
        split: sum.splits if_splits)
  then show "c \<in> set (iteration env)" and "c \<in> closed st \<or> \<not> writable env c"
    by simp_all
qed

text \<open>
  Connections 1 and 2 are registered and the write to 1 fails: 1 is removed and 2 stays.
  The port then opens and the line \<open>0,0,0,1\<close> is broadcast: 1 still has only its
  snapshot.
\<close>

theorem eviction_on_failure_witness:
  "Marshal zeroQuaternion = Inr zeroJSON
   \<and> 1 \<in> dom (clients twoClients)
   \<and> 1 \<in> set (iteration \<lparr>iteration = [1, 2], writable = down1\<rparr>)
   \<and> \<not> writable \<lparr>iteration = [1, 2], writable = down1\<rparr> 1
   \<and> dom (clients (broadcastQuaternion \<lparr>iteration = [1, 2], writable = down1\<rparr>
                      zeroQuaternion twoClients)) = {2}
   \<and> (\<exists>st'. run [Serial OpenSucceeds,
                  Serial (ScanLine ''0,0,0,1'' \<lparr>iteration = [2], writable = allUp\<rparr>)]
              (Connecting, broadcastQuaternion \<lparr>iteration = [1, 2], writable = down1\<rparr>
                             zeroQuaternion twoClients) = Some (Reading, st')
            \<and> 1 \<notin> dom (clients st') \<and> sent st' 1 = [Some zeroJSON]
            \<and> sent st' 2 = [Some zeroJSON, Some zeroJSON, Some identityJSON])"
proof -
  let ?env = "\<lparr>iteration = [1, 2], writable = down1\<rparr>"
  let ?env2 = "\<lparr>iteration = [2], writable = allUp\<rparr>"
  let ?st = "broadcastQuaternion ?env zeroQuaternion twoClients"
  let ?st' = "processLine ?env2 ''0,0,0,1'' (logPrint LogOpened (?st\<lparr>portOpen := True\<rparr>))"
  have h: "Marshal zeroQuaternion = Inr zeroJSON \<and> 1 \<in> dom (clients twoClients)
      \<and> 1 \<in> set (iteration ?env) \<and> (1 \<in> closed twoClients \<or> \<not> writable ?env 1)"
    by (simp add: Marshal_zero twoClients_eval down1_def)
  have r: "run [Serial OpenSucceeds, Serial (ScanLine ''0,0,0,1'' ?env2)] (Connecting, ?st)
           = Some (Reading, ?st')"
    by simp
  have d: "dom (clients ?st) = {2}"
    by (auto simp: broadcastQuaternion_def Marshal_zero hub_defs twoClients_eval down1_def
        split: if_splits)
  have s2: "sent ?st' 2 = [Some zeroJSON, Some zeroJSON, Some identityJSON]"
    by (simp add: processLine_def parse_identity broadcastQuaternion_def Marshal_zero
        Marshal_identity hub_defs twoClients_eval down1_def allUp_def)
  from eviction_on_failure [of zeroQuaternion zeroJSON 1 twoClients ?env] h r
  have "1 \<notin> dom (clients ?st') \<and> sent ?st' 1 = sent twoClients 1"
    by blast
  then have "1 \<notin> dom (clients ?st') \<and> sent ?st' 1 = [Some zeroJSON]"
    by (simp add: twoClients_eval)
  with h r d s2 show ?thesis by (simp add: down1_def)
qed

subsection \<open>Fan-out\<close>

text \<open>
  Claim C6, as stated, fails: connection 1 is registered and every write succeeds, but
  the record parsed from \<open>NaN,0,0,1\<close> cannot be serialized and the broadcast of it
  delivers nothing to 1.
\<close>

theorem broadcast_nan_delivers_nothing:
  "parseQuaternion ''NaN,0,0,1'' = Inr nanQuaternion
   \<and> dom (clients oneClient) = {1} \<and> 1 \<notin> closed oneClient \<and> allUp 1
   \<and> sent (broadcastQuaternion \<lparr>iteration = [1], writable = allUp\<rparr> nanQuaternion oneClient) 1
       = sent oneClient 1"
  by (simp add: parse_NaN oneClient_eval allUp_def broadcast_unsupported [OF Marshal_NaN])

text \<open>
  Claim C6, amended. When the record can be serialized (no field is NaN or infinite),
  \<open>range\<close> produces every registered subscriber once and no write fails, every
  registered subscriber receives exactly one more message, the same serialization for
  all of them, and nobody else receives anything; the serialization is the object with
  the members i, j, k and real of the record, and \<open>clients\<close> is unchanged.
\<close>

theorem fanout_complete:
  assumes m: "Marshal quat = Inr data"
    and d: "distinct (iteration env)"
    and v: "set (iteration env) = dom (clients st)"
    and ok: "\<forall>c \<in> dom (clients st). c \<notin> closed st \<and> writable env c"
  shows "(\<forall>c \<in> dom (clients st).
            sent (broadcastQuaternion env quat st) c = sent st c @ [Some data])
         \<and> (\<forall>c. c \<notin> dom (clients st) \<longrightarrow> sent (broadcastQuaternion env quat st) c = sent st c)
         \<and> clients (broadcastQuaternion env quat st) = clients st
         \<and> data = JObject [(''i'', JNumber (I quat)), (''j'', JNumber (J quat)),
                           (''k'', JNumber (K quat)), (''real'', JNumber (Real quat))]"
proof -
  have b: "broadcastQuaternion env quat st
           = rangeClients (writable env) (Some data) (iteration env) st"
    using m by (simp add: broadcastQuaternion_def)
  have 1: "\<forall>c \<in> dom (clients st). sent (broadcastQuaternion env quat st) c = sent st c @ [Some data]"
    using v ok by (simp add: b rangeClients_sent [OF d])
  have 2: "\<forall>c. c \<notin> dom (clients st) \<longrightarrow> sent (broadcastQuaternion env quat st) c = sent st c"
    by (simp add: b rangeClients_sent_absent)
  have 3: "clients (broadcastQuaternion env quat st) = clients st"
  proof
    fix c
    show "clients (broadcastQuaternion env quat st) c = clients st c"
      using v ok by (auto simp: b rangeClients_clients domIff)
  qed
  from 1 2 3 Marshal_Inr [OF m] show ?thesis by simp
qed

text \<open>
  The identity record is broadcast to connections 1 and 2: each has its snapshot and
  then the record, connection 3 has nothing.
\<close>

theorem fanout_complete_witness:
  "Marshal identityQuaternion = Inr identityJSON
   \<and> distinct (iteration \<lparr>iteration = [2, 1], writable = allUp\<rparr>)
   \<and> set (iteration \<lparr>iteration = [2, 1], writable = allUp\<rparr>) = dom (clients twoClients)
   \<and> dom (clients twoClients) = {1, 2} \<and> closed twoClients = {} \<and> allUp 1 \<and> allUp 2
   \<and> sent (broadcastQuaternion \<lparr>iteration = [2, 1], writable = allUp\<rparr> identityQuaternion
             twoClients) 1 = [Some zeroJSON, Some identityJSON]
   \<and> sent (broadcastQuaternion \<lparr>iteration = [2, 1], writable = allUp\<rparr> identityQuaternion
             twoClients) 2 = [Some zeroJSON, Some identityJSON]
   \<and> sent (broadcastQuaternion \<lparr>iteration = [2, 1], writable = allUp\<rparr> identityQuaternion
             twoClients) 3 = []"
proof -
  let ?env = "\<lparr>iteration = [2, 1], writable = allUp\<rparr>"
  have d: "distinct (iteration ?env)" by simp
  have v: "set (iteration ?env) = dom (clients twoClients)"
    by (auto simp: twoClients_eval)
  have ok: "\<forall>c \<in> dom (clients twoClients). c \<notin> closed twoClients \<and> writable ?env c"
    by (simp add: twoClients_eval allUp_def)
  have m: "1 \<in> dom (clients twoClients)" "2 \<in> dom (clients twoClients)"
    "3 \<notin> dom (clients twoClients)"
    by (simp_all add: twoClients_eval)
  from fanout_complete [OF Marshal_identity d v ok] m
  have "sent (broadcastQuaternion ?env identityQuaternion twoClients) 1
          = sent twoClients 1 @ [Some identityJSON]
      \<and> sent (broadcastQuaternion ?env identityQuaternion twoClients) 2
          = sent twoClients 2 @ [Some identityJSON]
      \<and> sent (broadcastQuaternion ?env identityQuaternion twoClients) 3 = sent twoClients 3"
    by blast
  moreover have "dom (clients twoClients) = {1, 2}" by (auto simp: twoClients_eval)
  ultimately show ?thesis
    using d v by (simp add: twoClients_eval Marshal_identity allUp_def)
qed

section \<open>The ingest loop\<close>

text \<open>
  Claim C10. The lines \<open>NaN,0,0,1\<close> and \<open>Inf,0,0,1\<close> parse, \<open>json.Marshal\<close> fails on the
  records they give, and processing such a line stores the record in \<open>currentQuat\<close>
  while the broadcast writes to no connection and leaves \<open>clients\<close> as it was.
\<close>

theorem unserializable_record_stored_not_broadcast:
  "parseQuaternion ''NaN,0,0,1'' = Inr nanQuaternion
   \<and> Marshal nanQuaternion = Inl [Text ''json: unsupported value: NaN'']
   \<and> currentQuat (processLine env ''NaN,0,0,1'' st) = nanQuaternion
   \<and> sent (processLine env ''NaN,0,0,1'' st) = sent st
   \<and> clients (processLine env ''NaN,0,0,1'' st) = clients st
   \<and> closed (processLine env ''NaN,0,0,1'' st) = closed st
   \<and> parseQuaternion ''Inf,0,0,1'' = Inr infQuaternion
   \<and> Marshal infQuaternion = Inl [Text ''json: unsupported value: +Inf'']
   \<and> currentQuat (processLine env ''Inf,0,0,1'' st) = infQuaternion
   \<and> sent (processLine env ''Inf,0,0,1'' st) = sent st
   \<and> clients (processLine env ''Inf,0,0,1'' st) = clients st
   \<and> closed (processLine env ''Inf,0,0,1'' st) = closed st"
  by (simp add: processLine_def parse_NaN parse_Inf Marshal_NaN Marshal_Inf
      broadcast_unsupported [OF Marshal_NaN] broadcast_unsupported [OF Marshal_Inf])

subsection \<open>The first message of a subscriber\<close>

text \<open>
  When \<open>currentQuat\<close> can be serialized and the write succeeds, a new connection is
  registered and its first message is the serialization of \<open>currentQuat\<close>.
\<close>

lemma handleWebSocket_snapshot:
  assumes "fresh c st" and "up c" and "Marshal (currentQuat st) = Inr d"
  shows "clients (handleWebSocket (Some c) up st) c = Some True
         \<and> sent (handleWebSocket (Some c) up st) c = [Some d]"
  using assms by (simp add: handleWebSocket_def fresh_def hub_defs Let_def)

text \<open>
  Claim C7 fails on the code: after the line \<open>NaN,0,0,1\<close> has been read, \<open>currentQuat\<close>
  cannot be serialized, \<open>handleWebSocket\<close> discards the error of \<open>json.Marshal\<close> and
  writes the nil data, so the first message of the new subscriber 1 is empty.
\<close>

theorem first_message_empty_after_nan:
  "run [Serial OpenSucceeds,
        Serial (ScanLine ''NaN,0,0,1'' \<lparr>iteration = [], writable = allUp\<rparr>),
        WsConnect (Some 1) allUp] (Connecting, init)
   = Some (Reading,
       \<lparr>currentQuat = nanQuaternion, clients = [1 \<mapsto> True],
        sent = (\<lambda>_. [])(1 := [None]), closed = {}, portOpen = True,
        logged = [LogOpened, LogMarshalError [Text ''json: unsupported value: NaN''],
                  LogClientConnected]\<rparr>)"
  by (simp add: processLine_def parse_NaN broadcast_unsupported [OF Marshal_NaN]
      handleWebSocket_def fresh_def init_def hub_defs allUp_def Let_def Marshal_NaN)

subsection \<open>Reading\<close>

lemma run_lines:
  "run (map (\<lambda>(line, env). Serial (ScanLine line env)) ls) (Reading, st)
   = Some (Reading, readLines ls st)"
  by (induction ls arbitrary: st) (auto simp: readLines_def)

lemma processLine_currentQuat:
  "currentQuat (processLine env line st)
   = (case parseQuaternion line of Inl err \<Rightarrow> currentQuat st | Inr q \<Rightarrow> q)"
  by (simp add: processLine_def broadcast_currentQuat logPrint_def split: sum.splits)

text \<open>After any lines, \<open>currentQuat\<close> is the record of the last line that parsed.\<close>

lemma readLines_currentQuat:
  "currentQuat (readLines ls st) = last (currentQuat st # parsedRecords (map fst ls))"
proof (induction ls arbitrary: st)
  case Nil
  then show ?case by (simp add: readLines_def parsedRecords_def)
next
  case (Cons le ls)
  obtain line env where le: "le = (line, env)" by (cases le)
  have "readLines (le # ls) st = readLines ls (processLine env line st)"
    by (simp add: readLines_def le)
  with Cons.IH [of "processLine env line st"] show ?case
    by (cases "parseQuaternion line")
      (simp_all add: processLine_currentQuat parsedRecords_def le)
qed

text \<open>
  Claim C8. In \<open>Reading\<close>, a line that parses is stored in \<open>currentQuat\<close> and then
  broadcast, the broadcast running on the state that already holds the record, and the
  loop stays in \<open>Reading\<close>; a line that does not parse adds a log line and changes
  nothing else, with no broadcast, and the loop stays in \<open>Reading\<close>. So the loop reads
  any sequence of lines without leaving \<open>Reading\<close>, and \<open>currentQuat\<close> ends as the
  record of the last line that parsed.
\<close>

theorem reading_line:
  "(parseQuaternion line = Inr q
    \<longrightarrow> listenStep (ScanLine line env) (Reading, st)
          = Some (Reading, broadcastQuaternion env q (st\<lparr>currentQuat := q\<rparr>))
        \<and> currentQuat (broadcastQuaternion env q (st\<lparr>currentQuat := q\<rparr>)) = q)
   \<and> (parseQuaternion line = Inl err
    \<longrightarrow> listenStep (ScanLine line env) (Reading, st)
          = Some (Reading, st\<lparr>logged := logged st @ [LogParseError err line]\<rparr>))
   \<and> run (map (\<lambda>(line, env). Serial (ScanLine line env)) ls) (Reading, st)
       = Some (Reading, readLines ls st)
   \<and> currentQuat (readLines ls st) = last (currentQuat st # parsedRecords (map fst ls))"
proof (intro conjI impI)
  assume "parseQuaternion line = Inr q"
  then show "listenStep (ScanLine line env) (Reading, st)
      = Some (Reading, broadcastQuaternion env q (st\<lparr>currentQuat := q\<rparr>))"
    by (simp add: processLine_def)
  show "currentQuat (broadcastQuaternion env q (st\<lparr>currentQuat := q\<rparr>)) = q"
    by (simp add: broadcast_currentQuat)
next
  assume "parseQuaternion line = Inl err"
  then show "listenStep (ScanLine line env) (Reading, st)
      = Some (Reading, st\<lparr>logged := logged st @ [LogParseError err line]\<rparr>)"
    by (simp add: processLine_def logPrint_def)
next
  show "run (map (\<lambda>(line, env). Serial (ScanLine line env)) ls) (Reading, st)
      = Some (Reading, readLines ls st)"
    by (rule run_lines)
  show "currentQuat (readLines ls st) = last (currentQuat st # parsedRecords (map fst ls))"
    by (rule readLines_currentQuat)
qed

text \<open>
  The line \<open>0,0,0,1\<close> read with connections 1 and 2 registered, and the line \<open>0,0,0\<close>.
\<close>

theorem reading_line_witness:
  "parseQuaternion ''0,0,0,1'' = Inr identityQuaternion
   \<and> (\<exists>st'. listenStep (ScanLine ''0,0,0,1'' \<lparr>iteration = [1, 2], writable = allUp\<rparr>)
               (Reading, twoClients) = Some (Reading, st')
            \<and> currentQuat st' = identityQuaternion
            \<and> sent st' 1 = [Some zeroJSON, Some identityJSON]
            \<and> sent st' 2 = [Some zeroJSON, Some identityJSON])
   \<and> parseQuaternion ''0,0,0'' = Inl [Text ''expected 4 values, got 3'']
   \<and> listenStep (ScanLine ''0,0,0'' \<lparr>iteration = [1, 2], writable = allUp\<rparr>) (Reading, twoClients)
       = Some (Reading, twoClients\<lparr>logged := logged twoClients
                 @ [LogParseError [Text ''expected 4 values, got 3''] ''0,0,0'']\<rparr>)"
proof -
  let ?env = "\<lparr>iteration = [1, 2], writable = allUp\<rparr>"
  let ?st = "broadcastQuaternion ?env identityQuaternion
               (twoClients\<lparr>currentQuat := identityQuaternion\<rparr>)"
  have s: "sent ?st 1 = [Some zeroJSON, Some identityJSON]"
    "sent ?st 2 = [Some zeroJSON, Some identityJSON]"
    by (simp_all add: broadcastQuaternion_def Marshal_identity hub_defs twoClients_eval
        allUp_def)
  from reading_line [of "''0,0,0,1''" identityQuaternion ?env twoClients] parse_identity
  have 1: "listenStep (ScanLine ''0,0,0,1'' ?env) (Reading, twoClients) = Some (Reading, ?st)
      \<and> currentQuat ?st = identityQuaternion"
    by blast
  from reading_line [of "''0,0,0''" _ ?env twoClients "[Text ''expected 4 values, got 3'']"]
    parse_three
  have 2: "listenStep (ScanLine ''0,0,0'' ?env) (Reading, twoClients)
      = Some (Reading, twoClients\<lparr>logged := logged twoClients
                 @ [LogParseError [Text ''expected 4 values, got 3''] ''0,0,0'']\<rparr>)"
    by blast
  from 1 2 s parse_identity parse_three show ?thesis by simp
qed

subsection \<open>Reconnecting\<close>

lemma run_append:
  "run (xs @ ys) cfg = (case run xs cfg of None \<Rightarrow> None | Some cfg' \<Rightarrow> run ys cfg')"
  by (induction xs arbitrary: cfg) (simp_all split: option.splits)


text \<open>
  The port is open exactly in \<open>Reading\<close>: the handle of an ended port is released before
  the next \<open>serial.Open\<close>, in every run of the process.
\<close>

lemma rangeClients_portOpen:
  "portOpen (rangeClients up data keys st) = portOpen st"
  by (induction keys arbitrary: st) (simp_all add: hub_defs)

lemma processLine_portOpen: "portOpen (processLine env line st) = portOpen st"
  by (simp add: processLine_def broadcastQuaternion_def rangeClients_portOpen logPrint_def
      split: sum.splits)

lemma handleWebSocket_portOpen: "portOpen (handleWebSocket upgraded up st) = portOpen st"
  by (cases upgraded) (simp_all add: handleWebSocket_def hub_defs Let_def)

lemma handleWebSocketExit_portOpen: "portOpen (handleWebSocketExit c st) = portOpen st"
  by (simp add: handleWebSocketExit_def hub_defs Let_def)

lemma step_port:
  assumes "step ev (ph, st) = Some (ph', st')" and "portOpen st \<longleftrightarrow> ph = Reading"
  shows "portOpen st' \<longleftrightarrow> ph' = Reading"
proof (cases ev)
  case (Serial sev)
  with assms show ?thesis
    by (cases sev; cases ph) (auto simp: logPrint_def processLine_portOpen Let_def)
next
  case (WsConnect upgraded up)
  with assms show ?thesis
    by (auto simp: handleWebSocket_portOpen split: option.splits if_splits)
next
  case (WsExit c)
  with assms show ?thesis
    by (auto simp: handleWebSocketExit_portOpen split: if_splits)
qed

lemma run_port:
  "run evs (ph, st) = Some (ph', st') \<Longrightarrow> (portOpen st \<longleftrightarrow> ph = Reading) \<Longrightarrow>
   (portOpen st' \<longleftrightarrow> ph' = Reading)"
proof (induction evs arbitrary: ph st)
  case Nil
  then show ?case by simp
next
  case (Cons ev evs)
  from Cons.prems(1) obtain ph1 st1 where s: "step ev (ph, st) = Some (ph1, st1)"
    and r: "run evs (ph1, st1) = Some (ph', st')"
    by (auto split: option.splits)
  from step_port [OF s Cons.prems(2)] Cons.IH [OF r] show ?case by simp
qed

lemma reachable_port:
  "run evs (Connecting, init) = Some (ph, st) \<Longrightarrow> (portOpen st \<longleftrightarrow> ph = Reading)"
  by (erule run_port) (simp add: init_def)


text \<open>One turn of the loop is the run of the machine over the events of the attempt.\<close>

lemma run_scan_lines: "run (map Serial (map (\<lambda>(line, env). ScanLine line env) ls)) (Reading, st)
   = Some (Reading, readLines ls st)"
  by (induction ls arbitrary: st) (auto simp: readLines_def)

lemma run_attempt:
  "run (map Serial (attemptEvents a)) (Connecting, st) = Some (Connecting, listenOnce a st)"
proof (cases a)
  case OpenError
  then show ?thesis by (simp add: listenOnce_def)
next
  case (Opened ls err)
  then show ?thesis
    by (simp add: listenOnce_def run_append run_scan_lines Let_def del: map_map)
qed








section \<open>Process start\<close>

lemma handleWebSocket_currentQuat:
  "currentQuat (handleWebSocket upgraded up st) = currentQuat st"
  by (cases upgraded) (simp_all add: handleWebSocket_def hub_defs Let_def)

lemma handleWebSocketExit_currentQuat:
  "currentQuat (handleWebSocketExit c st) = currentQuat st"
  by (simp add: handleWebSocketExit_def hub_defs Let_def)

text \<open>Only a line that parses changes \<open>currentQuat\<close>.\<close>

lemma step_currentQuat:
  assumes "step ev (ph, st) = Some (ph', st')"
    and "\<forall>line env. ev = Serial (ScanLine line env) \<longrightarrow> (\<exists>e. parseQuaternion line = Inl e)"
  shows "currentQuat st' = currentQuat st"
proof (cases ev)
  case (Serial sev)
  show ?thesis
  proof (cases sev)
    case OpenFails
    with Serial assms show ?thesis by (cases ph) (auto simp: logPrint_def)
  next
    case OpenSucceeds
    with Serial assms show ?thesis by (cases ph) (auto simp: logPrint_def)
  next
    case (ScanLine line env)
    with Serial assms obtain e where "parseQuaternion line = Inl e" by blast
    with ScanLine Serial assms show ?thesis
      by (cases ph) (auto simp: processLine_def logPrint_def)
  next
    case (ScanEnds err)
    with Serial assms show ?thesis by (cases ph; cases err) (auto simp: logPrint_def)
  qed
next
  case (WsConnect upgraded up)
  with assms show ?thesis
    by (auto simp: handleWebSocket_currentQuat split: option.splits if_splits)
next
  case (WsExit c)
  with assms show ?thesis
    by (auto simp: handleWebSocketExit_currentQuat split: if_splits)
qed

lemma run_currentQuat:
  "run evs (ph, st) = Some (ph', st') \<Longrightarrow>
   \<forall>line env. Serial (ScanLine line env) \<in> set evs \<longrightarrow> (\<exists>e. parseQuaternion line = Inl e) \<Longrightarrow>
   currentQuat st' = currentQuat st"
proof (induction evs arbitrary: ph st)
  case Nil
  then show ?case by simp
next
  case (Cons ev evs)
  from Cons.prems(1) obtain ph1 st1 where s: "step ev (ph, st) = Some (ph1, st1)"
    and r: "run evs (ph1, st1) = Some (ph', st')"
    by (auto split: option.splits)
  from Cons.prems(2)
  have a: "\<forall>line env. ev = Serial (ScanLine line env) \<longrightarrow> (\<exists>e. parseQuaternion line = Inl e)"
    and b: "\<forall>line env. Serial (ScanLine line env) \<in> set evs
              \<longrightarrow> (\<exists>e. parseQuaternion line = Inl e)"
    by simp_all
  from step_currentQuat [OF s a] Cons.IH [OF r b] show ?case by simp
qed

text \<open>
  Claim C1, as stated, fails: at process start \<open>currentQuat\<close> is the zero value of its
  type, whose field \<open>Real\<close> is 0, not the identity record with \<open>real = 1\<close>; a subscriber
  that joins at once is sent the zero record.
\<close>

theorem initial_store_not_identity:
  "currentQuat init \<noteq> identityQuaternion \<and> Real (currentQuat init) = 0
   \<and> Real identityQuaternion = 0x3FF0000000000000
   \<and> sent (handleWebSocket (Some 1) allUp init) 1 = [Some zeroJSON]
   \<and> zeroJSON \<noteq> identityJSON"
  by (simp add: init_def zeroQuaternion_def identityQuaternion_def handleWebSocket_def
      hub_defs allUp_def Let_def Marshal_zero [unfolded zeroQuaternion_def]
      zeroJSON_def identityJSON_def)

text \<open>
  Claim C1, amended. At process start \<open>currentQuat\<close> holds the zero record,
  \<open>i = j = k = real = 0\<close>; as long as no line has parsed, whatever else has happened, a
  subscriber that registers and whose write succeeds is sent the serialization of that
  zero record as its first message.
\<close>

theorem initial_store_zero:
  assumes "run evs (Connecting, init) = Some (ph, st)"
    and "\<forall>line env. Serial (ScanLine line env) \<in> set evs \<longrightarrow> (\<exists>e. parseQuaternion line = Inl e)"
    and "fresh c st" and "up c"
  shows "currentQuat init = \<lparr>I = 0, J = 0, K = 0, Real = 0\<rparr>
         \<and> currentQuat st = \<lparr>I = 0, J = 0, K = 0, Real = 0\<rparr>
         \<and> clients (handleWebSocket (Some c) up st) c = Some True
         \<and> sent (handleWebSocket (Some c) up st) c
             = [Some (JObject [(''i'', JNumber 0), (''j'', JNumber 0), (''k'', JNumber 0),
                               (''real'', JNumber 0)])]"
proof -
  have i: "currentQuat init = zeroQuaternion" by (simp add: init_def)
  from run_currentQuat [OF assms(1) assms(2)] i
  have q: "currentQuat st = zeroQuaternion" by simp
  then have "Marshal (currentQuat st) = Inr zeroJSON" by (simp add: Marshal_zero)
  with handleWebSocket_snapshot [of c st up zeroJSON] assms(3) assms(4) i q
  show ?thesis by (simp add: zeroQuaternion_def zeroJSON_def)
qed

text \<open>
  The port opens, the line \<open>0,0,0\<close> is rejected, connection 1 joins and leaves, and
  connection 2 joins: its first message is the zero record.
\<close>

theorem initial_store_zero_witness:
  "(\<exists>st. run [Serial OpenSucceeds,
              Serial (ScanLine ''0,0,0'' \<lparr>iteration = [], writable = allUp\<rparr>),
              WsConnect (Some 1) allUp, WsExit 1] (Connecting, init) = Some (Reading, st)
         \<and> fresh 2 st \<and> allUp 2
         \<and> currentQuat st = \<lparr>I = 0, J = 0, K = 0, Real = 0\<rparr>
         \<and> sent (handleWebSocket (Some 2) allUp st) 2
             = [Some (JObject [(''i'', JNumber 0), (''j'', JNumber 0), (''k'', JNumber 0),
                               (''real'', JNumber 0)])])
   \<and> parseQuaternion ''0,0,0'' = Inl [Text ''expected 4 values, got 3'']"
proof -
  let ?evs = "[Serial OpenSucceeds,
              Serial (ScanLine ''0,0,0'' \<lparr>iteration = [], writable = allUp\<rparr>),
              WsConnect (Some 1) allUp, WsExit 1]"
  obtain st where r: "run ?evs (Connecting, init) = Some (Reading, st)"
    and f: "fresh 2 st"
    by (simp add: processLine_def parse_three handleWebSocket_def handleWebSocketExit_def
        fresh_def init_def hub_defs allUp_def Let_def Marshal_zero)
  have p: "\<forall>line env. Serial (ScanLine line env) \<in> set ?evs
             \<longrightarrow> (\<exists>e. parseQuaternion line = Inl e)"
    by (simp add: parse_three)
  have u: "allUp 2" by (simp add: allUp_def)
  from initial_store_zero [of ?evs Reading st 2 allUp] r p f u parse_three
  show ?thesis by blast
qed

end
